theory Spec2Isabelle
  imports Main
begin

section \<open>The worker process of MPFProcess.py\<close>

text \<open>
  The class \<^verbatim>\<open>MPFProcess\<close> runs a worker in its own process. Its method \<^verbatim>\<open>run\<close>
  builds the two channel objects and the logger, calls the hook \<^verbatim>\<open>init\<close>, iterates
  (poll, \<^verbatim>\<open>update\<close>, \<^verbatim>\<open>step\<close>, \<^verbatim>\<open>publish\<close>, sleep) until the stop header arrives or
  something raises, and tears down in the \<^verbatim>\<open>finally\<close> block.

  The embedding is a state-and-exception passing one. An action maps the object to a
  pair: what was raised (\<open>None\<close> when the action returned) and the object afterwards.
  Every call that \<^verbatim>\<open>run\<close> makes is appended to a ghost field \<open>trace\<close>, at the moment of
  the call, so the order and the number of the calls can be read off.
\<close>

subsection \<open>Exceptions, attributes, events\<close>

text \<open>
  \<open>AttributeError\<close> is what Python raises for \<^verbatim>\<open>None.debug(...)\<close> and for reading a
  deleted attribute; \<open>Exn\<close> stands for any other exception, with its description.
\<close>

datatype exn = NotImplementedError | AttributeError | Exn string

text \<open>
  An attribute of \<^verbatim>\<open>self\<close> that \<^verbatim>\<open>run\<close> deletes with \<^verbatim>\<open>del\<close>: it is \<^verbatim>\<open>None\<close>, an
  object, or gone.
\<close>

datatype 'a attr = Deleted | PyNone | Obj 'a

datatype logger = Logger string

datatype level = DEBUG | CRITICAL

datatype ('t, 'd) event =
    NewTaskChecker
  | NewResultPublisher
  | Log level string
  | CallInit
  | Poll
  | CallUpdate string 'd
  | CallStep
  | CallPublish
  | Sleep 't
  | CheckerCleanup
  | DelChecker
  | DelPublisher
  | CallCleanup

subsection \<open>The object\<close>

text \<open>
  The fields of \<^verbatim>\<open>__init__\<close>, in its order (the leading underscore of \<^verbatim>\<open>_out\<close>,
  \<^verbatim>\<open>_inp\<close>, \<^verbatim>\<open>_loop_wait_period\<close> and \<^verbatim>\<open>_MPFLog\<close> is dropped), and the ghost trace.
  The attributes that a subclass adds live in the extension of the record.
\<close>

record ('q, 'c, 'p, 'm, 't, 'd) MPFProcess =
  out :: "'q option"
  inp :: "'q option"
  loop_wait_period :: "'t option"
  name :: string
  shared_memory :: "'m option"
  task_checker :: "'c attr"
  results_publisher :: "'p attr"
  MPFLog :: "logger option"
  trace :: "('t, 'd) event list"

definition MPFProcess_new ::
  "string \<Rightarrow> 't option \<Rightarrow> 'u \<Rightarrow> ('q, 'c, 'p, 'm, 't, 'd, 'u) MPFProcess_scheme" where
  "MPFProcess_new process_name period u =
     \<lparr>out = None, inp = None, loop_wait_period = period, name = process_name,
      shared_memory = None, task_checker = PyNone, results_publisher = PyNone,
      MPFLog = None, trace = [], \<dots> = u\<rparr>"

definition set_shared_memory ::
  "'m option \<Rightarrow> ('q, 'c, 'p, 'm, 't, 'd, 'u) MPFProcess_scheme
     \<Rightarrow> ('q, 'c, 'p, 'm, 't, 'd, 'u) MPFProcess_scheme" where
  "set_shared_memory memory s = s\<lparr>shared_memory := memory\<rparr>"

subsection \<open>The hooks and the collaborators\<close>

text \<open>
  A hook is a method of the subclass. It works on what the worker owns, the shared
  memory handle and the subclass's own attributes, and either returns or raises; what
  it changed before raising stays changed. The attributes that \<^verbatim>\<open>run\<close> manages itself
  (the two channel objects, the logger, the name, the wait period) are out of a hook's
  reach: a subclass that reassigned them is not modelled.
\<close>

type_synonym ('m, 'u) hook = "'m option \<times> 'u \<Rightarrow> exn option \<times> ('m option \<times> 'u)"

record ('m, 'u, 'd) hooks =
  init :: "('m, 'u) hook"
  update :: "string \<Rightarrow> 'd \<Rightarrow> ('m, 'u) hook"
  step :: "('m, 'u) hook"
  publish :: "('m, 'u) hook"
  cleanup :: "('m, 'u) hook"

text \<open>The five methods as \<^verbatim>\<open>MPFProcess\<close> itself defines them.\<close>

definition MPFProcess_hooks :: "('m, 'u, 'd) hooks" where
  "MPFProcess_hooks =
     \<lparr>init = (\<lambda>w. (Some NotImplementedError, w)),
      update = (\<lambda>hd dt w. (Some NotImplementedError, w)),
      step = (\<lambda>w. (Some NotImplementedError, w)),
      publish = (\<lambda>w. (Some NotImplementedError, w)),
      cleanup = (\<lambda>w. (Some NotImplementedError, w))\<rparr>"

text \<open>
  What \<^verbatim>\<open>run\<close> imports and calls but this file does not define is a parameter: the
  import of the package, the two constructors, the reader's \<^verbatim>\<open>check_for_update\<close>,
  \<^verbatim>\<open>header\<close>, \<^verbatim>\<open>latest_data\<close> and \<^verbatim>\<open>cleanup\<close>, and \<^verbatim>\<open>time.sleep\<close>. Each call may raise.
  So is the text that \<^verbatim>\<open>traceback.format_exc()\<close> returns in the handler: it is the
  library's rendering of the exception being handled and of the stack it was raised
  on, so it is given the calls made so far and the exception.
\<close>

record ('q, 'c, 'p, 't, 'd) env =
  import_MPFramework :: "exn option"
  MPFTaskChecker :: "'q option \<Rightarrow> string \<Rightarrow> exn + 'c"
  MPFResultPublisher :: "'q option \<Rightarrow> string \<Rightarrow> exn + 'p"
  check_for_update :: "'c \<Rightarrow> (exn + bool) \<times> 'c"
  header :: "'c \<Rightarrow> string"
  latest_data :: "'c \<Rightarrow> 'd"
  checker_cleanup :: "'c \<Rightarrow> exn option"
  time_sleep :: "'t \<Rightarrow> exn option"
  format_exc :: "('t, 'd) event list \<Rightarrow> exn \<Rightarrow> string"

subsection \<open>Actions\<close>

type_synonym 's action = "'s \<Rightarrow> exn option \<times> 's"

definition seq :: "'s action \<Rightarrow> 's action \<Rightarrow> 's action" where
  "seq a b s = (case a s of (None, s1) \<Rightarrow> b s1 | (Some e, s1) \<Rightarrow> (Some e, s1))"

definition emit ::
  "('t, 'd) event \<Rightarrow> ('q, 'c, 'p, 'm, 't, 'd, 'u) MPFProcess_scheme
     \<Rightarrow> ('q, 'c, 'p, 'm, 't, 'd, 'u) MPFProcess_scheme" where
  "emit ev s = s\<lparr>trace := trace s @ [ev]\<rparr>"

text \<open>
  \<^verbatim>\<open>self._MPFLog.debug(msg)\<close> and \<^verbatim>\<open>self._MPFLog.critical(msg)\<close>: an attribute error when
  the logger is still \<^verbatim>\<open>None\<close>. The message is built from the worker's name.
\<close>

definition log_call ::
  "level \<Rightarrow> (string \<Rightarrow> string)
     \<Rightarrow> ('q, 'c, 'p, 'm, 't, 'd, 'u) MPFProcess_scheme action" where
  "log_call lv msg s =
     (case MPFLog s of
        None \<Rightarrow> (Some AttributeError, s)
      | Some lg \<Rightarrow> (None, emit (Log lv (msg (name s))) s))"

definition call_hook ::
  "('t, 'd) event \<Rightarrow> ('m, 'u) hook
     \<Rightarrow> ('q, 'c, 'p, 'm, 't, 'd, 'u) MPFProcess_scheme action" where
  "call_hook ev f s =
     (case f (shared_memory s, MPFProcess.more s) of
        (r, (m, u)) \<Rightarrow> (r, (emit ev s)\<lparr>shared_memory := m, MPFProcess.more := u\<rparr>))"

subsection \<open>The messages\<close>

definition newline :: string where
  "newline = [CHR 0x0A]"

definition msg_initializing :: "string \<Rightarrow> string" where
  "msg_initializing n = ''MPFProcess initializing...''"

definition msg_initialized :: "string \<Rightarrow> string" where
  "msg_initialized n = ''MPFProcess '' @ n @ '' has successfully initialized''"

definition msg_stop :: "string \<Rightarrow> string" where
  "msg_stop n = ''PROCESS '' @ n @ '' RECEIVED STOP SIGNAL!''"

text \<open>The message of the handler, for the traceback text \<open>tb\<close>.\<close>

definition msg_crashed :: "string \<Rightarrow> string \<Rightarrow> string" where
  "msg_crashed tb n =
     ''MPFPROCESS '' @ n @ '' HAS CRASHED!'' @ newline @
     ''EXCEPTION TRACEBACK:'' @ newline @ tb"

definition msg_cleaning_checker :: "string \<Rightarrow> string" where
  "msg_cleaning_checker n = ''MPFProcess '' @ n @ '' Cleaning task checker...''"

definition msg_cleaned_checker :: "string \<Rightarrow> string" where
  "msg_cleaned_checker n = ''MPFProcess '' @ n @ '' has cleaned its task checker!''"

definition msg_cleaning_up :: "string \<Rightarrow> string" where
  "msg_cleaning_up n = ''MPFProcess '' @ n @ '' Cleaning up...''"

definition msg_exiting :: "string \<Rightarrow> string" where
  "msg_exiting n = ''MPFProcess '' @ n @ '' Exiting!''"

subsection \<open>The loop\<close>

text \<open>
  How one pass through the body of \<^verbatim>\<open>while True\<close> ends: at its end (\<open>Continue\<close>), at
  \<^verbatim>\<open>break\<close>, or with an exception.
\<close>

datatype ctl = Continue | Break | Raise exn

definition lift :: "'s action \<Rightarrow> ('s \<Rightarrow> ctl \<times> 's) \<Rightarrow> 's \<Rightarrow> ctl \<times> 's" where
  "lift a k s = (case a s of (None, s1) \<Rightarrow> k s1 | (Some e, s1) \<Rightarrow> (Raise e, s1))"

text \<open>\<^verbatim>\<open>time.sleep(self._loop_wait_period)\<close>, when the period is not \<^verbatim>\<open>None\<close>.\<close>

definition wait ::
  "('q, 'c, 'p, 't, 'd) env \<Rightarrow> ('q, 'c, 'p, 'm, 't, 'd, 'u) MPFProcess_scheme action" where
  "wait E s =
     (case loop_wait_period s of
        None \<Rightarrow> (None, s)
      | Some p \<Rightarrow> (time_sleep E p, emit (Sleep p) s))"

text \<open>Lines 66 to 73: step, publish, wait.\<close>

definition step_publish_wait ::
  "('q, 'c, 'p, 't, 'd) env \<Rightarrow> ('m, 'u, 'd) hooks
     \<Rightarrow> ('q, 'c, 'p, 'm, 't, 'd, 'u) MPFProcess_scheme
     \<Rightarrow> ctl \<times> ('q, 'c, 'p, 'm, 't, 'd, 'u) MPFProcess_scheme" where
  "step_publish_wait E h =
     lift (call_hook CallStep (step h))
       (lift (call_hook CallPublish (publish h))
          (lift (wait E) (\<lambda>s. (Continue, s))))"

text \<open>
  Lines 55 to 73. \<^verbatim>\<open>self.task_checker.check_for_update()\<close> needs the reader to be an
  object; the reader's state after the call is kept in the attribute.
\<close>

definition iteration ::
  "('q, 'c, 'p, 't, 'd) env \<Rightarrow> ('m, 'u, 'd) hooks
     \<Rightarrow> ('q, 'c, 'p, 'm, 't, 'd, 'u) MPFProcess_scheme
     \<Rightarrow> ctl \<times> ('q, 'c, 'p, 'm, 't, 'd, 'u) MPFProcess_scheme" where
  "iteration E h s =
     (case task_checker s of
        Obj c \<Rightarrow>
          (case check_for_update E c of
             (Inl e, c1) \<Rightarrow> (Raise e, emit Poll (s\<lparr>task_checker := Obj c1\<rparr>))
           | (Inr new, c1) \<Rightarrow>
               (let s1 = emit Poll (s\<lparr>task_checker := Obj c1\<rparr>) in
                if new then
                  if header E c1 = ''STOP PROCESS''
                  then lift (log_call DEBUG msg_stop) (\<lambda>s2. (Break, s2)) s1
                  else lift (call_hook (CallUpdate (header E c1) (latest_data E c1))
                               (update h (header E c1) (latest_data E c1)))
                         (step_publish_wait E h) s1
                else step_publish_wait E h s1))
      | _ \<Rightarrow> (Raise AttributeError, s))"

text \<open>
  \<^verbatim>\<open>while True\<close> may run for ever, so the loop takes fuel: the number of passes it may
  still make. Out of fuel the answer is \<open>Continue\<close>, with the object as the passes made
  so far left it: the loop has not ended yet.
\<close>

fun loop ::
  "nat \<Rightarrow> ('q, 'c, 'p, 't, 'd) env \<Rightarrow> ('m, 'u, 'd) hooks
     \<Rightarrow> ('q, 'c, 'p, 'm, 't, 'd, 'u) MPFProcess_scheme
     \<Rightarrow> ctl \<times> ('q, 'c, 'p, 'm, 't, 'd, 'u) MPFProcess_scheme" where
  "loop 0 E h s = (Continue, s)"
| "loop (Suc n) E h s =
     (case iteration E h s of
        (Continue, s1) \<Rightarrow> loop n E h s1
      | (Break, s1) \<Rightarrow> (Break, s1)
      | (Raise e, s1) \<Rightarrow> (Raise e, s1))"

subsection \<open>The three blocks of run\<close>

text \<open>Lines 35 to 44: the imports, the two channel objects, the logger.\<close>

definition import_modules ::
  "('q, 'c, 'p, 't, 'd) env \<Rightarrow> ('q, 'c, 'p, 'm, 't, 'd, 'u) MPFProcess_scheme action" where
  "import_modules E s = (import_MPFramework E, s)"

definition new_task_checker ::
  "('q, 'c, 'p, 't, 'd) env \<Rightarrow> ('q, 'c, 'p, 'm, 't, 'd, 'u) MPFProcess_scheme action" where
  "new_task_checker E s =
     (case MPFTaskChecker E (inp s) (name s) of
        Inl e \<Rightarrow> (Some e, emit NewTaskChecker s)
      | Inr c \<Rightarrow> (None, (emit NewTaskChecker s)\<lparr>task_checker := Obj c\<rparr>))"

definition new_results_publisher ::
  "('q, 'c, 'p, 't, 'd) env \<Rightarrow> ('q, 'c, 'p, 'm, 't, 'd, 'u) MPFProcess_scheme action" where
  "new_results_publisher E s =
     (case MPFResultPublisher E (out s) (name s) of
        Inl e \<Rightarrow> (Some e, emit NewResultPublisher s)
      | Inr p \<Rightarrow> (None, (emit NewResultPublisher s)\<lparr>results_publisher := Obj p\<rparr>))"

definition get_logger :: "('q, 'c, 'p, 'm, 't, 'd, 'u) MPFProcess_scheme action" where
  "get_logger s = (None, s\<lparr>MPFLog := Some (Logger ''MPFLogger'')\<rparr>)"

text \<open>Lines 35 to 49: everything of the \<^verbatim>\<open>try\<close> block before the loop.\<close>

definition startup ::
  "('q, 'c, 'p, 't, 'd) env \<Rightarrow> ('m, 'u, 'd) hooks
     \<Rightarrow> ('q, 'c, 'p, 'm, 't, 'd, 'u) MPFProcess_scheme action" where
  "startup E h =
     seq (import_modules E)
       (seq (new_task_checker E)
          (seq (new_results_publisher E)
             (seq get_logger
                (seq (log_call DEBUG msg_initializing)
                   (seq (call_hook CallInit (init h))
                      (log_call DEBUG msg_initialized))))))"

text \<open>Lines 32 to 73, the \<^verbatim>\<open>try\<close> block.\<close>

definition try_block ::
  "nat \<Rightarrow> ('q, 'c, 'p, 't, 'd) env \<Rightarrow> ('m, 'u, 'd) hooks
     \<Rightarrow> ('q, 'c, 'p, 'm, 't, 'd, 'u) MPFProcess_scheme
     \<Rightarrow> ctl \<times> ('q, 'c, 'p, 'm, 't, 'd, 'u) MPFProcess_scheme" where
  "try_block n E h = lift (startup E h) (loop n E h)"

text \<open>Lines 75 to 80, the handler: it catches everything.\<close>

definition except_block ::
  "('q, 'c, 'p, 't, 'd) env \<Rightarrow> exn
     \<Rightarrow> ('q, 'c, 'p, 'm, 't, 'd, 'u) MPFProcess_scheme action" where
  "except_block E e s = log_call CRITICAL (msg_crashed (format_exc E (trace s) e)) s"

text \<open>Lines 84 to 88.\<close>

definition release_task_checker ::
  "('q, 'c, 'p, 't, 'd) env \<Rightarrow> ('q, 'c, 'p, 'm, 't, 'd, 'u) MPFProcess_scheme action" where
  "release_task_checker E s =
     (case task_checker s of
        Deleted \<Rightarrow> (Some AttributeError, s)
      | PyNone \<Rightarrow> (None, s)
      | Obj c \<Rightarrow>
          seq (log_call DEBUG msg_cleaning_checker)
            (seq (\<lambda>s1. (checker_cleanup E c, emit CheckerCleanup s1))
               (seq (\<lambda>s2. (None, emit DelChecker (s2\<lparr>task_checker := Deleted\<rparr>)))
                  (log_call DEBUG msg_cleaned_checker))) s)"

text \<open>Lines 90 and 91.\<close>

definition release_results_publisher ::
  "('q, 'c, 'p, 'm, 't, 'd, 'u) MPFProcess_scheme action" where
  "release_results_publisher s =
     (case results_publisher s of
        Deleted \<Rightarrow> (Some AttributeError, s)
      | PyNone \<Rightarrow> (None, s)
      | Obj p \<Rightarrow> (None, emit DelPublisher (s\<lparr>results_publisher := Deleted\<rparr>)))"

text \<open>Lines 82 to 96, the \<^verbatim>\<open>finally\<close> block up to its \<^verbatim>\<open>return\<close>.\<close>

definition finally_block ::
  "('q, 'c, 'p, 't, 'd) env \<Rightarrow> ('m, 'u, 'd) hooks
     \<Rightarrow> ('q, 'c, 'p, 'm, 't, 'd, 'u) MPFProcess_scheme action" where
  "finally_block E h =
     seq (release_task_checker E)
       (seq release_results_publisher
          (seq (log_call DEBUG msg_cleaning_up)
             (seq (call_hook CallCleanup (cleanup h))
                (log_call DEBUG msg_exiting))))"

subsection \<open>run\<close>

text \<open>
  How a call of \<^verbatim>\<open>run\<close> ends: not yet (the loop is out of fuel), by its \<^verbatim>\<open>return\<close>, or
  by an exception that leaves it. With \<open>Running\<close> comes the object as it is after the
  iterations made so far, so that what holds of every such object holds all along an
  execution that never ends.
\<close>

datatype outcome = Running | Returned | Raised exn

definition finish :: "exn option \<times> 's \<Rightarrow> outcome \<times> 's" where
  "finish r = (case r of (None, s) \<Rightarrow> (Returned, s) | (Some e, s) \<Rightarrow> (Raised e, s))"

text \<open>
  The \<^verbatim>\<open>finally\<close> block runs after the \<^verbatim>\<open>try\<close> block, and after the handler when the
  \<^verbatim>\<open>try\<close> block raised, also when the handler raised itself. It ends with \<^verbatim>\<open>return\<close>: an
  exception still pending from the handler is dropped there, and only an exception of
  the \<^verbatim>\<open>finally\<close> block itself leaves \<^verbatim>\<open>run\<close>.
\<close>

definition run ::
  "nat \<Rightarrow> ('q, 'c, 'p, 't, 'd) env \<Rightarrow> ('m, 'u, 'd) hooks
     \<Rightarrow> ('q, 'c, 'p, 'm, 't, 'd, 'u) MPFProcess_scheme
     \<Rightarrow> outcome \<times> ('q, 'c, 'p, 'm, 't, 'd, 'u) MPFProcess_scheme" where
  "run n E h s =
     (case try_block n E h s of
        (Continue, s1) \<Rightarrow> (Running, s1)
      | (Break, s1) \<Rightarrow> finish (finally_block E h s1)
      | (Raise e, s1) \<Rightarrow> finish (finally_block E h (snd (except_block E e s1))))"

subsection \<open>A worker and a channel to run the model on\<close>

text \<open>
  A reader over a script: each poll consumes one entry, which says that nothing has
  arrived, that a message has, or that the poll raises. After the script the channel
  stays empty. Its \<^verbatim>\<open>cleanup\<close> raises what \<open>cr\<close> says. The traceback text of this
  environment is a placeholder; no property depends on it.
\<close>

datatype poll = NoMessage | Message string "int option" | PollRaises exn

record reader =
  script :: "poll list"
  hdr :: string
  dat :: "int option"

definition poll_script :: "reader \<Rightarrow> (exn + bool) \<times> reader" where
  "poll_script c =
     (case script c of
        [] \<Rightarrow> (Inr False, c)
      | NoMessage # r \<Rightarrow> (Inr False, c\<lparr>script := r\<rparr>)
      | Message k v # r \<Rightarrow> (Inr True, c\<lparr>script := r, hdr := k, dat := v\<rparr>)
      | PollRaises e # r \<Rightarrow> (Inl e, c\<lparr>script := r\<rparr>))"

definition script_env :: "exn option \<Rightarrow> (poll list, reader, unit, nat, int option) env" where
  "script_env cr =
     \<lparr>import_MPFramework = None,
      MPFTaskChecker =
        (\<lambda>q n. Inr \<lparr>script = (case q of None \<Rightarrow> [] | Some sc \<Rightarrow> sc), hdr = [], dat = None\<rparr>),
      MPFResultPublisher = (\<lambda>q n. Inr ()),
      check_for_update = poll_script,
      header = hdr,
      latest_data = dat,
      checker_cleanup = (\<lambda>c. cr),
      time_sleep = (\<lambda>t. None),
      format_exc = (\<lambda>tr e. ''Traceback (most recent call last): ...'')\<rparr>"

text \<open>
  A worker that counts its steps in its own attribute, stores the payload of every
  message in the shared memory, and whose \<open>k\<close>-th step raises.
\<close>

definition counting_hooks :: "nat \<Rightarrow> (int, nat, int option) hooks" where
  "counting_hooks k =
     \<lparr>init = (\<lambda>w. (None, w)),
      update = (\<lambda>hd dt (m, u). (None, (dt, u))),
      step = (\<lambda>(m, u). (if Suc u = k then Some (Exn ''step failed'') else None, (m, Suc u))),
      publish = (\<lambda>w. (None, w)),
      cleanup = (\<lambda>w. (None, w))\<rparr>"

definition worker_w1 ::
  "poll list \<Rightarrow> (poll list, reader, unit, int, nat, int option, nat) MPFProcess_scheme" where
  "worker_w1 sc = (MPFProcess_new ''w1'' None 0)\<lparr>inp := Some sc\<rparr>"

text \<open>A channel whose publisher cannot be built.\<close>

definition no_publisher_env :: "(poll list, reader, unit, nat, int option) env" where
  "no_publisher_env =
     (script_env None)\<lparr>MPFResultPublisher := (\<lambda>q n. Inl (Exn ''no result channel''))\<rparr>"

text \<open>A worker whose \<^verbatim>\<open>cleanup\<close> raises.\<close>

definition failing_cleanup_hooks :: "(int, nat, int option) hooks" where
  "failing_cleanup_hooks =
     (counting_hooks 0)\<lparr>cleanup := (\<lambda>w. (Some (Exn ''cleanup failed''), w))\<rparr>"

text \<open>A worker whose \<^verbatim>\<open>init\<close> raises.\<close>

definition failing_init_hooks :: "(int, nat, int option) hooks" where
  "failing_init_hooks =
     (counting_hooks 0)\<lparr>init := (\<lambda>w. (Some (Exn ''init failed''), w))\<rparr>"

text \<open>A worker that writes the number of its steps into the shared memory.\<close>

definition tally_hooks :: "(int, nat, int option) hooks" where
  "tally_hooks =
     \<lparr>init = (\<lambda>(m, u). (None, (Some 0, 0))),
      update = (\<lambda>hd dt w. (None, w)),
      step = (\<lambda>(m, u). (None, (Some (int (Suc u)), Suc u))),
      publish = (\<lambda>w. (None, w)),
      cleanup = (\<lambda>w. (None, w))\<rparr>"

subsection \<open>Vocabulary of the properties\<close>

text \<open>The calls that belong to an iteration of the loop.\<close>

fun loop_call :: "('t, 'd) event \<Rightarrow> bool" where
  "loop_call Poll = True"
| "loop_call (CallUpdate k v) = True"
| "loop_call CallStep = True"
| "loop_call CallPublish = True"
| "loop_call ev = False"

text \<open>
  \<open>extends P s s'\<close>: the object \<open>s'\<close> has the name, the wait period and the channels of
  \<open>s\<close>, and its trace is the trace of \<open>s\<close> followed by events that satisfy \<open>P\<close>.
\<close>

definition extends ::
  "(('t, 'd) event \<Rightarrow> bool) \<Rightarrow> ('q, 'c, 'p, 'm, 't, 'd, 'u) MPFProcess_scheme
     \<Rightarrow> ('q, 'c, 'p, 'm, 't, 'd, 'u) MPFProcess_scheme \<Rightarrow> bool" where
  "extends P s s' \<longleftrightarrow>
     name s' = name s \<and> loop_wait_period s' = loop_wait_period s \<and>
     inp s' = inp s \<and> out s' = out s \<and>
     (\<exists>evs. trace s' = trace s @ evs \<and> list_all P evs)"

text \<open>
  The object as the loop finds it: the logger is assigned, the reader is an object, the
  publisher has not been deleted.
\<close>

definition ready :: "('q, 'c, 'p, 'm, 't, 'd, 'u) MPFProcess_scheme \<Rightarrow> bool" where
  "ready s \<longleftrightarrow>
     MPFLog s \<noteq> None \<and> (\<exists>c. task_checker s = Obj c) \<and> results_publisher s \<noteq> Deleted"

text \<open>
  \<open>stays P s s'\<close>: as \<open>extends\<close>, and the logger and the publisher are those of \<open>s\<close>, and
  the reader is still an object if it was one.
\<close>

definition stays ::
  "(('t, 'd) event \<Rightarrow> bool) \<Rightarrow> ('q, 'c, 'p, 'm, 't, 'd, 'u) MPFProcess_scheme
     \<Rightarrow> ('q, 'c, 'p, 'm, 't, 'd, 'u) MPFProcess_scheme \<Rightarrow> bool" where
  "stays P s s' \<longleftrightarrow>
     extends P s s' \<and> MPFLog s' = MPFLog s \<and> results_publisher s' = results_publisher s \<and>
     ((\<exists>c. task_checker s = Obj c) \<longrightarrow> (\<exists>c. task_checker s' = Obj c))"

text \<open>The events of the loop, the call of \<^verbatim>\<open>update\<close> with the stop header apart.\<close>

fun loop_event :: "('t, 'd) event \<Rightarrow> bool" where
  "loop_event Poll = True"
| "loop_event (CallUpdate k v) = (k \<noteq> ''STOP PROCESS'')"
| "loop_event CallStep = True"
| "loop_event CallPublish = True"
| "loop_event (Sleep p) = True"
| "loop_event (Log lv m) = (lv = DEBUG)"
| "loop_event ev = False"

text \<open>The actions of the teardown.\<close>

fun teardown_action :: "('t, 'd) event \<Rightarrow> bool" where
  "teardown_action CheckerCleanup = True"
| "teardown_action DelChecker = True"
| "teardown_action DelPublisher = True"
| "teardown_action CallCleanup = True"
| "teardown_action ev = False"

text \<open>Lines 45 to 49: from the first log message to the one after \<^verbatim>\<open>init\<close>.\<close>

definition init_phase ::
  "('m, 'u, 'd) hooks \<Rightarrow> ('q, 'c, 'p, 'm, 't, 'd, 'u) MPFProcess_scheme action" where
  "init_phase h =
     seq (log_call DEBUG msg_initializing)
       (seq (call_hook CallInit (init h)) (log_call DEBUG msg_initialized))"

text \<open>The object once the reader \<open>c\<close>, the publisher \<open>p\<close> and the logger are assigned.\<close>

definition built ::
  "'c \<Rightarrow> 'p \<Rightarrow> ('q, 'c, 'p, 'm, 't, 'd, 'u) MPFProcess_scheme
     \<Rightarrow> ('q, 'c, 'p, 'm, 't, 'd, 'u) MPFProcess_scheme" where
  "built c p s =
     (emit NewResultPublisher ((emit NewTaskChecker s)\<lparr>task_checker := Obj c\<rparr>))
       \<lparr>results_publisher := Obj p, MPFLog := Some (Logger ''MPFLogger'')\<rparr>"

text \<open>Every event but a call of \<^verbatim>\<open>update\<close> with the stop header.\<close>

fun run_event :: "('t, 'd) event \<Rightarrow> bool" where
  "run_event (CallUpdate k v) = (k \<noteq> ''STOP PROCESS'')"
| "run_event ev = True"

text \<open>
  \<open>alike R s t\<close>: the objects \<open>s\<close> and \<open>t\<close> differ at most in the shared memory, and their
  shared memories are related by \<open>R\<close>.
\<close>

definition alike ::
  "('m option \<Rightarrow> 'm option \<Rightarrow> bool) \<Rightarrow> ('q, 'c, 'p, 'm, 't, 'd, 'u) MPFProcess_scheme
     \<Rightarrow> ('q, 'c, 'p, 'm, 't, 'd, 'u) MPFProcess_scheme \<Rightarrow> bool" where
  "alike R s t \<longleftrightarrow> R (shared_memory s) (shared_memory t) \<and> t = s\<lparr>shared_memory := shared_memory t\<rparr>"

text \<open>
  A hook cannot tell two related shared memories apart: it ends the same way on both,
  leaves the same attributes of its own, and leaves related shared memories.
\<close>

definition hook_alike :: "('m option \<Rightarrow> 'm option \<Rightarrow> bool) \<Rightarrow> ('m, 'u) hook \<Rightarrow> bool" where
  "hook_alike R f \<longleftrightarrow>
     (\<forall>m m' u. R m m' \<longrightarrow>
        fst (f (m, u)) = fst (f (m', u)) \<and>
        snd (snd (f (m, u))) = snd (snd (f (m', u))) \<and>
        R (fst (snd (f (m, u)))) (fst (snd (f (m', u)))))"

definition hooks_alike ::
  "('m option \<Rightarrow> 'm option \<Rightarrow> bool) \<Rightarrow> ('m, 'u, 'd) hooks \<Rightarrow> bool" where
  "hooks_alike R h \<longleftrightarrow>
     hook_alike R (init h) \<and> (\<forall>k v. hook_alike R (update h k v)) \<and>
     hook_alike R (step h) \<and> hook_alike R (publish h) \<and> hook_alike R (cleanup h)"

text \<open>Every hook keeps the property \<open>P\<close> of the shared memory.\<close>

definition hooks_keep :: "('m option \<Rightarrow> bool) \<Rightarrow> ('m, 'u, 'd) hooks \<Rightarrow> bool" where
  "hooks_keep P h \<longleftrightarrow>
     (\<forall>m u. P m \<longrightarrow>
        P (fst (snd (init h (m, u)))) \<and> (\<forall>k v. P (fst (snd (update h k v (m, u))))) \<and>
        P (fst (snd (step h (m, u)))) \<and> P (fst (snd (publish h (m, u)))) \<and>
        P (fst (snd (cleanup h (m, u)))))"

text \<open>
  An action treats the shared memory as the hooks do: run on an object with a related
  shared memory, it ends the same way and leaves the same object but for the shared
  memory, which is related again.
\<close>

definition act_alike ::
  "('m option \<Rightarrow> 'm option \<Rightarrow> bool)
     \<Rightarrow> (('q, 'c, 'p, 'm, 't, 'd, 'u) MPFProcess_scheme
          \<Rightarrow> 'r \<times> ('q, 'c, 'p, 'm, 't, 'd, 'u) MPFProcess_scheme) \<Rightarrow> bool" where
  "act_alike R a \<longleftrightarrow>
     (\<forall>s m. R (shared_memory s) m \<longrightarrow>
        fst (a (s\<lparr>shared_memory := m\<rparr>)) = fst (a s) \<and>
        (\<exists>m'. snd (a (s\<lparr>shared_memory := m\<rparr>)) = (snd (a s))\<lparr>shared_memory := m'\<rparr> \<and>
              R (shared_memory (snd (a s))) m'))"

text \<open>
  What the call that an event records does to what the worker owns, the shared memory
  and the subclass's attributes: the call of a hook leaves there what the hook leaves;
  every other event is a call of the core and changes nothing there.
\<close>

fun hook_effect ::
  "('m, 'u, 'd) hooks \<Rightarrow> ('t, 'd) event \<Rightarrow> 'm option \<times> 'u \<Rightarrow> 'm option \<times> 'u" where
  "hook_effect h CallInit w = snd (init h w)"
| "hook_effect h (CallUpdate k v) w = snd (update h k v w)"
| "hook_effect h CallStep w = snd (step h w)"
| "hook_effect h CallPublish w = snd (publish h w)"
| "hook_effect h CallCleanup w = snd (cleanup h w)"
| "hook_effect h ev w = w"

text \<open>The hooks alone, called in the order of the events.\<close>

definition replay ::
  "('m, 'u, 'd) hooks \<Rightarrow> ('t, 'd) event list \<Rightarrow> 'm option \<times> 'u \<Rightarrow> 'm option \<times> 'u" where
  "replay h evs w = foldl (\<lambda>w ev. hook_effect h ev w) w evs"

text \<open>
  \<open>replays h s s'\<close>: the trace of \<open>s'\<close> is the trace of \<open>s\<close> followed by some events, and
  what the worker owns in \<open>s'\<close> is what the hook calls among these events, run on what
  the worker owns in \<open>s\<close>, leave.
\<close>

definition replays ::
  "('m, 'u, 'd) hooks \<Rightarrow> ('q, 'c, 'p, 'm, 't, 'd, 'u) MPFProcess_scheme
     \<Rightarrow> ('q, 'c, 'p, 'm, 't, 'd, 'u) MPFProcess_scheme \<Rightarrow> bool" where
  "replays h s s' \<longleftrightarrow>
     (\<exists>evs. trace s' = trace s @ evs \<and>
        (shared_memory s', MPFProcess.more s') =
          replay h evs (shared_memory s, MPFProcess.more s))"

section \<open>Properties\<close>

subsection \<open>Fields\<close>

lemma emit_fields [simp]:
  "trace (emit ev s) = trace s @ [ev]"
  "MPFLog (emit ev s) = MPFLog s"
  "name (emit ev s) = name s"
  "task_checker (emit ev s) = task_checker s"
  "results_publisher (emit ev s) = results_publisher s"
  "loop_wait_period (emit ev s) = loop_wait_period s"
  "shared_memory (emit ev s) = shared_memory s"
  "MPFProcess.more (emit ev s) = MPFProcess.more s"
  "inp (emit ev s) = inp s"
  "out (emit ev s) = out s"
  by (simp_all add: emit_def)

lemma log_call_Some:
  "MPFLog s = Some lg \<Longrightarrow> log_call lv msg s = (None, emit (Log lv (msg (name s))) s)"
  by (simp add: log_call_def)

lemma log_call_None:
  "MPFLog s = None \<Longrightarrow> log_call lv msg s = (Some AttributeError, s)"
  by (simp add: log_call_def)

lemma log_call_fields [simp]:
  "MPFLog (snd (log_call lv msg s)) = MPFLog s"
  "name (snd (log_call lv msg s)) = name s"
  "task_checker (snd (log_call lv msg s)) = task_checker s"
  "results_publisher (snd (log_call lv msg s)) = results_publisher s"
  "loop_wait_period (snd (log_call lv msg s)) = loop_wait_period s"
  "shared_memory (snd (log_call lv msg s)) = shared_memory s"
  "MPFProcess.more (snd (log_call lv msg s)) = MPFProcess.more s"
  "inp (snd (log_call lv msg s)) = inp s"
  "out (snd (log_call lv msg s)) = out s"
  by (simp_all add: log_call_def split: option.splits)

lemma call_hook_fields [simp]:
  "trace (snd (call_hook ev f s)) = trace s @ [ev]"
  "MPFLog (snd (call_hook ev f s)) = MPFLog s"
  "name (snd (call_hook ev f s)) = name s"
  "task_checker (snd (call_hook ev f s)) = task_checker s"
  "results_publisher (snd (call_hook ev f s)) = results_publisher s"
  "loop_wait_period (snd (call_hook ev f s)) = loop_wait_period s"
  "inp (snd (call_hook ev f s)) = inp s"
  "out (snd (call_hook ev f s)) = out s"
  by (simp_all add: call_hook_def split: prod.splits)

lemma call_hook_fst [simp]:
  "fst (call_hook ev f s) = fst (f (shared_memory s, MPFProcess.more s))"
  by (simp add: call_hook_def split: prod.splits)

subsection \<open>Sequencing\<close>

lemma seq_NoneE:
  assumes "seq a b s = (None, s')"
  obtains s1 where "a s = (None, s1)" and "b s1 = (None, s')"
  using assms by (cases "a s") (auto simp: seq_def split: option.splits)

lemma seq_SomeE:
  assumes "seq a b s = (Some e, s')"
  obtains "a s = (Some e, s')" | s1 where "a s = (None, s1)" and "b s1 = (Some e, s')"
  using assms by (cases "a s") (auto simp: seq_def split: option.splits)

lemma seq_None: "a s = (None, s1) \<Longrightarrow> seq a b s = b s1"
  by (simp add: seq_def)

lemma seq_Some: "a s = (Some e, s1) \<Longrightarrow> seq a b s = (Some e, s1)"
  by (simp add: seq_def)

lemma lift_None: "a s = (None, s1) \<Longrightarrow> lift a k s = k s1"
  by (simp add: lift_def)

lemma lift_Some: "a s = (Some e, s1) \<Longrightarrow> lift a k s = (Raise e, s1)"
  by (simp add: lift_def)

lemma lift_cases:
  obtains s1 where "a s = (None, s1)" and "lift a k s = k s1"
  | e s1 where "a s = (Some e, s1)" and "lift a k s = (Raise e, s1)"
  by (cases "a s"; cases "fst (a s)") (auto simp: lift_def)

lemma seq_cases:
  obtains s1 where "a s = (None, s1)" and "seq a b s = b s1"
  | e s1 where "a s = (Some e, s1)" and "seq a b s = (Some e, s1)"
  by (cases "a s"; cases "fst (a s)") (auto simp: seq_def)

lemma lift_Continue:
  "lift a k s = (Continue, s') \<Longrightarrow> \<exists>s1. a s = (None, s1) \<and> k s1 = (Continue, s')"
  by (cases "a s") (auto simp: lift_def split: option.splits)

text \<open>A transitive relation between the object before and after passes through
  sequencing.\<close>

lemma seq_rel:
  assumes tr: "\<And>x y z. R x y \<Longrightarrow> R y z \<Longrightarrow> R x z"
    and a: "\<And>s. R s (snd (a s))" and b: "\<And>s. R s (snd (b s))"
  shows "R s (snd (seq a b s))"
proof (cases rule: seq_cases[of a s b])
  case (1 s1)
  then have "R s s1" using a[of s] by simp
  from tr[OF this b[of s1]] 1 show ?thesis by simp
next
  case (2 e s1)
  then show ?thesis using a[of s] by simp
qed

lemma lift_rel:
  assumes tr: "\<And>x y z. R x y \<Longrightarrow> R y z \<Longrightarrow> R x z"
    and a: "\<And>s. R s (snd (a s))" and k: "\<And>s. R s (snd (k s))"
  shows "R s (snd (lift a k s))"
proof (cases rule: lift_cases[of a s k])
  case (1 s1)
  then have "R s s1" using a[of s] by simp
  from tr[OF this k[of s1]] 1 show ?thesis by simp
next
  case (2 e s1)
  then show ?thesis using a[of s] by simp
qed

lemma seq_inv:
  assumes a: "\<And>s. I s \<Longrightarrow> I (snd (a s))" and b: "\<And>s. I s \<Longrightarrow> I (snd (b s))" and i: "I s"
  shows "I (snd (seq a b s))"
proof (cases rule: seq_cases[of a s b])
  case (1 s1)
  then show ?thesis using b[of s1] a[OF i] by simp
next
  case (2 e s1)
  then show ?thesis using a[OF i] by simp
qed

lemma lift_inv:
  assumes a: "\<And>s. I s \<Longrightarrow> I (snd (a s))" and k: "\<And>s. I s \<Longrightarrow> I (snd (k s))" and i: "I s"
  shows "I (snd (lift a k s))"
proof (cases rule: lift_cases[of a s k])
  case (1 s1)
  then show ?thesis using k[of s1] a[OF i] by simp
next
  case (2 e s1)
  then show ?thesis using a[OF i] by simp
qed

subsection \<open>What a block appends to the trace\<close>

lemma extends_refl [simp]: "extends P s s"
  by (simp add: extends_def)

lemma extends_trans: "extends P x y \<Longrightarrow> extends P y z \<Longrightarrow> extends P x z"
  by (auto simp: extends_def)

lemma extends_emit: "P ev \<Longrightarrow> extends P s (emit ev s)"
  by (simp add: extends_def)

lemma extends_count:
  assumes "extends P s s'" and "\<not> P ev"
  shows "count_list (trace s') ev = count_list (trace s) ev"
proof -
  from assms(1) obtain evs where t: "trace s' = trace s @ evs" and p: "list_all P evs"
    by (auto simp: extends_def)
  from p assms(2) have "ev \<notin> set evs" by (auto simp: list_all_iff)
  then have "count_list evs ev = 0" by simp
  with t show ?thesis by simp
qed

lemma extends_filter:
  assumes "extends P s s'" and "\<And>ev. P ev \<Longrightarrow> \<not> Q ev"
  shows "\<exists>evs. trace s' = trace s @ evs \<and> filter Q evs = []"
proof -
  from assms(1) obtain evs where t: "trace s' = trace s @ evs" and p: "list_all P evs"
    by (auto simp: extends_def)
  from p assms(2) have "filter Q evs = []" by (auto simp: list_all_iff filter_empty_conv)
  with t show ?thesis by blast
qed

lemma log_call_extends: "(\<And>m. P (Log lv m)) \<Longrightarrow> extends P s (snd (log_call lv msg s))"
  by (simp add: log_call_def extends_def split: option.splits)

lemma call_hook_extends: "P ev \<Longrightarrow> extends P s (snd (call_hook ev f s))"
  by (simp add: extends_def)

lemma wait_extends: "(\<And>p. P (Sleep p)) \<Longrightarrow> extends P s (snd (wait E s))"
  by (simp add: wait_def extends_def split: option.splits)

subsection \<open>One pass through the loop\<close>

lemma wait_trace:
  "trace (snd (wait E s)) =
     trace s @ (case loop_wait_period s of None \<Rightarrow> [] | Some p \<Rightarrow> [Sleep p])"
  by (simp add: wait_def split: option.splits)

lemma step_publish_wait_Continue:
  assumes "step_publish_wait E h s = (Continue, s')"
  shows "trace s' = trace s @ [CallStep, CallPublish] @
           (case loop_wait_period s of None \<Rightarrow> [] | Some p \<Rightarrow> [Sleep p])"
proof -
  from assms obtain s1 where 1: "call_hook CallStep (step h) s = (None, s1)"
    and r1: "lift (call_hook CallPublish (publish h)) (lift (wait E) (\<lambda>s. (Continue, s))) s1
               = (Continue, s')"
    unfolding step_publish_wait_def by (blast dest: lift_Continue)
  from r1 obtain s2 where 2: "call_hook CallPublish (publish h) s1 = (None, s2)"
    and r2: "lift (wait E) (\<lambda>s. (Continue, s)) s2 = (Continue, s')"
    by (blast dest: lift_Continue)
  from r2 have 3: "wait E s2 = (None, s')"
    by (auto dest: lift_Continue)
  have t1: "trace s1 = trace s @ [CallStep]" "loop_wait_period s1 = loop_wait_period s"
    using call_hook_fields(1,6)[of CallStep "step h" s] 1 by simp_all
  have t2: "trace s2 = trace s1 @ [CallPublish]" "loop_wait_period s2 = loop_wait_period s1"
    using call_hook_fields(1,6)[of CallPublish "publish h" s1] 2 by simp_all
  have t3: "trace s' = trace s2 @ (case loop_wait_period s2 of None \<Rightarrow> [] | Some p \<Rightarrow> [Sleep p])"
    using wait_trace[of E s2] 3 by simp
  show ?thesis using t1 t2 t3 by simp
qed

lemma iteration_no_reader:
  "\<forall>c. task_checker s \<noteq> Obj c \<Longrightarrow> iteration E h s = (Raise AttributeError, s)"
  by (cases "task_checker s") (simp_all add: iteration_def)

lemma iteration_poll_raises:
  "task_checker s = Obj c \<Longrightarrow> check_for_update E c = (Inl e, c1) \<Longrightarrow>
   iteration E h s = (Raise e, emit Poll (s\<lparr>task_checker := Obj c1\<rparr>))"
  by (simp add: iteration_def)

lemma iteration_nothing_new:
  "task_checker s = Obj c \<Longrightarrow> check_for_update E c = (Inr False, c1) \<Longrightarrow>
   iteration E h s = step_publish_wait E h (emit Poll (s\<lparr>task_checker := Obj c1\<rparr>))"
  by (simp add: iteration_def)

lemma iteration_stop:
  "task_checker s = Obj c \<Longrightarrow> check_for_update E c = (Inr True, c1) \<Longrightarrow>
   header E c1 = ''STOP PROCESS'' \<Longrightarrow>
   iteration E h s =
     lift (log_call DEBUG msg_stop) (\<lambda>s2. (Break, s2)) (emit Poll (s\<lparr>task_checker := Obj c1\<rparr>))"
  by (simp add: iteration_def)

lemma iteration_message:
  "task_checker s = Obj c \<Longrightarrow> check_for_update E c = (Inr True, c1) \<Longrightarrow>
   header E c1 \<noteq> ''STOP PROCESS'' \<Longrightarrow>
   iteration E h s =
     lift (call_hook (CallUpdate (header E c1) (latest_data E c1))
             (update h (header E c1) (latest_data E c1)))
       (step_publish_wait E h) (emit Poll (s\<lparr>task_checker := Obj c1\<rparr>))"
  by (simp add: iteration_def)

text \<open>The five ways through an iteration, as a case distinction.\<close>

lemma iteration_cases:
  obtains (no_reader) "\<forall>c. task_checker s \<noteq> Obj c"
  | (poll_raises) c e c1 where "task_checker s = Obj c" "check_for_update E c = (Inl e, c1)"
  | (nothing_new) c c1 where "task_checker s = Obj c" "check_for_update E c = (Inr False, c1)"
  | (stop) c c1 where "task_checker s = Obj c" "check_for_update E c = (Inr True, c1)"
      "header E c1 = ''STOP PROCESS''"
  | (message) c c1 where "task_checker s = Obj c" "check_for_update E c = (Inr True, c1)"
      "header E c1 \<noteq> ''STOP PROCESS''"
proof (cases "task_checker s")
  case (Obj c)
  obtain r c1 where p: "check_for_update E c = (r, c1)" by (cases "check_for_update E c")
  show ?thesis
  proof (cases r)
    case (Inl e)
    with Obj p poll_raises show ?thesis by blast
  next
    case (Inr new)
    show ?thesis
    proof (cases new)
      case True
      with Obj p Inr stop[of c c1] message[of c c1] show ?thesis
        by (cases "header E c1 = ''STOP PROCESS''") simp_all
    next
      case False
      with Obj p Inr nothing_new[of c c1] show ?thesis by simp
    qed
  qed
qed (use no_reader in auto)

text \<open>
  C4. An iteration that runs to its end has made, in this order: one poll; one call of
  \<^verbatim>\<open>update(header, latest_data)\<close> if and only if the poll reported a new message, whose
  header then is not the stop header; one call of \<^verbatim>\<open>step\<close>; one call of \<^verbatim>\<open>publish\<close>; one
  \<^verbatim>\<open>time.sleep\<close> of the wait period if and only if the period is not \<^verbatim>\<open>None\<close>.
\<close>

theorem iteration_order:
  assumes "iteration E h s = (Continue, s')"
  shows "\<exists>c new c1. task_checker s = Obj c \<and> check_for_update E c = (Inr new, c1) \<and>
           (new \<longrightarrow> header E c1 \<noteq> ''STOP PROCESS'') \<and>
           trace s' = trace s @ [Poll] @
             (if new then [CallUpdate (header E c1) (latest_data E c1)] else []) @
             [CallStep, CallPublish] @
             (case loop_wait_period s of None \<Rightarrow> [] | Some p \<Rightarrow> [Sleep p])"
proof (cases rule: iteration_cases[where s = s and E = E])
  case no_reader
  with assms show ?thesis by (simp add: iteration_no_reader)
next
  case (poll_raises c e c1)
  with assms show ?thesis by (simp add: iteration_poll_raises)
next
  case (nothing_new c c1)
  let ?s1 = "emit Poll (s\<lparr>task_checker := Obj c1\<rparr>)"
  from assms nothing_new have "step_publish_wait E h ?s1 = (Continue, s')"
    by (simp add: iteration_nothing_new)
  from step_publish_wait_Continue[OF this] nothing_new show ?thesis
    by (intro exI[of _ c] exI[of _ False] exI[of _ c1]) simp
next
  case (stop c c1)
  with assms have "lift (log_call DEBUG msg_stop) (\<lambda>s2. (Break, s2))
      (emit Poll (s\<lparr>task_checker := Obj c1\<rparr>)) = (Continue, s')"
    by (simp add: iteration_stop)
  then show ?thesis by (auto dest: lift_Continue)
next
  case (message c c1)
  let ?s1 = "emit Poll (s\<lparr>task_checker := Obj c1\<rparr>)"
  let ?ev = "CallUpdate (header E c1) (latest_data E c1)"
  let ?f = "update h (header E c1) (latest_data E c1)"
  from assms message have "lift (call_hook ?ev ?f) (step_publish_wait E h) ?s1 = (Continue, s')"
    by (simp add: iteration_message)
  then obtain s2 where u: "call_hook ?ev ?f ?s1 = (None, s2)"
    and r: "step_publish_wait E h s2 = (Continue, s')"
    by (blast dest: lift_Continue)
  have t2: "trace s2 = trace s @ [Poll, ?ev]" "loop_wait_period s2 = loop_wait_period s"
    using call_hook_fields(1,6)[of ?ev ?f ?s1] u by simp_all
  from step_publish_wait_Continue[OF r] t2 message show ?thesis
    by (intro exI[of _ c] exI[of _ True] exI[of _ c1]) simp
qed

theorem iteration_order_witness:
  "iteration (script_env None) (counting_hooks 0)
     (snd (startup (script_env None) (counting_hooks 0) (worker_w1 [Message ''DO_X'' (Some 42)])))
   = (Continue, snd (iteration (script_env None) (counting_hooks 0)
     (snd (startup (script_env None) (counting_hooks 0) (worker_w1 [Message ''DO_X'' (Some 42)])))))
   \<and> trace (snd (iteration (script_env None) (counting_hooks 0)
     (snd (startup (script_env None) (counting_hooks 0) (worker_w1 [Message ''DO_X'' (Some 42)])))))
     = [NewTaskChecker, NewResultPublisher, Log DEBUG ''MPFProcess initializing...'',
        CallInit, Log DEBUG ''MPFProcess w1 has successfully initialized'',
        Poll, CallUpdate ''DO_X'' (Some 42), CallStep, CallPublish]"
proof -
  let ?E = "script_env None"
  let ?h = "counting_hooks 0"
  let ?s = "snd (startup ?E ?h (worker_w1 [Message ''DO_X'' (Some 42)]))"
  have s: "?s = \<lparr>out = None, inp = Some [Message ''DO_X'' (Some 42)], loop_wait_period = None,
      name = ''w1'', shared_memory = None,
      task_checker = Obj \<lparr>script = [Message ''DO_X'' (Some 42)], hdr = [], dat = None\<rparr>,
      results_publisher = Obj (), MPFLog = Some (Logger ''MPFLogger''),
      trace = [NewTaskChecker, NewResultPublisher, Log DEBUG ''MPFProcess initializing...'',
        CallInit, Log DEBUG ''MPFProcess w1 has successfully initialized''], \<dots> = 0\<rparr>"
    by (simp add: startup_def seq_def import_modules_def new_task_checker_def
        new_results_publisher_def get_logger_def log_call_def call_hook_def emit_def
        script_env_def counting_hooks_def worker_w1_def MPFProcess_new_def
        msg_initializing_def msg_initialized_def)
  have h: "iteration ?E ?h ?s = (Continue, snd (iteration ?E ?h ?s))"
    unfolding s
    by (simp add: iteration_def step_publish_wait_def lift_def wait_def call_hook_def emit_def
        script_env_def counting_hooks_def poll_script_def)
  from iteration_order[OF h] obtain c new c1 where
    c: "task_checker ?s = Obj c" and p: "check_for_update ?E c = (Inr new, c1)"
    and t: "trace (snd (iteration ?E ?h ?s)) = trace ?s @ [Poll] @
             (if new then [CallUpdate (header ?E c1) (latest_data ?E c1)] else []) @
             [CallStep, CallPublish] @
             (case loop_wait_period ?s of None \<Rightarrow> [] | Some p \<Rightarrow> [Sleep p])"
    by blast
  from c have c': "c = \<lparr>script = [Message ''DO_X'' (Some 42)], hdr = [], dat = None\<rparr>"
    unfolding s by simp
  from p have n: "new" and c1: "c1 = \<lparr>script = [], hdr = ''DO_X'', dat = Some 42\<rparr>"
    unfolding c' by (simp_all add: script_env_def poll_script_def)
  from t n c1 have "trace (snd (iteration ?E ?h ?s)) = trace ?s @ [Poll, CallUpdate ''DO_X'' (Some 42), CallStep, CallPublish]"
    unfolding s by (simp add: script_env_def)
  then show ?thesis using h unfolding s by simp
qed


subsection \<open>The loop keeps the logger, the reader and the publisher\<close>

lemma stays_refl [simp]: "stays P s s"
  by (simp add: stays_def)

lemma stays_trans: "stays P x y \<Longrightarrow> stays P y z \<Longrightarrow> stays P x z"
  unfolding stays_def using extends_trans by fastforce

lemma stays_extends: "stays P s s' \<Longrightarrow> extends P s s'"
  by (simp add: stays_def)

lemma stays_ready: "stays P s s' \<Longrightarrow> ready s \<Longrightarrow> ready s'"
  by (auto simp: stays_def ready_def)

lemma log_call_stays: "(\<And>m. P (Log lv m)) \<Longrightarrow> stays P s (snd (log_call lv msg s))"
  by (simp add: stays_def log_call_extends)

lemma call_hook_stays: "P ev \<Longrightarrow> stays P s (snd (call_hook ev f s))"
  by (simp add: stays_def call_hook_extends)

lemma wait_stays: "(\<And>p. P (Sleep p)) \<Longrightarrow> stays P s (snd (wait E s))"
  by (simp add: stays_def wait_extends) (simp add: wait_def split: option.splits)

lemma poll_stays: "P Poll \<Longrightarrow> stays P s (emit Poll (s\<lparr>task_checker := Obj c1\<rparr>))"
  by (simp add: stays_def extends_def)

lemma step_publish_wait_stays:
  assumes "P CallStep" "P CallPublish" "\<And>p. P (Sleep p)"
  shows "stays P s (snd (step_publish_wait E h s))"
  unfolding step_publish_wait_def
  by (intro lift_rel[where R = "stays P"] call_hook_stays wait_stays assms)
     (auto intro: stays_trans)

lemma iteration_stays:
  assumes P: "P Poll" "P CallStep" "P CallPublish" "\<And>p. P (Sleep p)" "\<And>m. P (Log DEBUG m)"
    "\<And>k v. k \<noteq> ''STOP PROCESS'' \<Longrightarrow> P (CallUpdate k v)"
  shows "stays P s (snd (iteration E h s))"
proof (cases rule: iteration_cases[where s = s and E = E])
  case no_reader
  then show ?thesis by (simp add: iteration_no_reader)
next
  case (poll_raises c e c1)
  then show ?thesis by (simp add: iteration_poll_raises poll_stays P)

next
  case (nothing_new c c1)
  have "stays P (emit Poll (s\<lparr>task_checker := Obj c1\<rparr>))
          (snd (step_publish_wait E h (emit Poll (s\<lparr>task_checker := Obj c1\<rparr>))))"
    by (rule step_publish_wait_stays) (rule P)+
  from stays_trans[OF poll_stays[where P = P and s = s and ?c1.0 = c1, OF P(1)] this] nothing_new show ?thesis
    by (simp add: iteration_nothing_new)
next
  case (stop c c1)
  have "stays P (emit Poll (s\<lparr>task_checker := Obj c1\<rparr>))
          (snd (lift (log_call DEBUG msg_stop) (\<lambda>s2. (Break, s2))
                 (emit Poll (s\<lparr>task_checker := Obj c1\<rparr>))))"
    by (intro lift_rel[where R = "stays P"] log_call_stays P) (auto intro: stays_trans)
  from stays_trans[OF poll_stays[where P = P and s = s and ?c1.0 = c1, OF P(1)] this] stop show ?thesis
    by (simp add: iteration_stop)
next
  case (message c c1)
  have "stays P (emit Poll (s\<lparr>task_checker := Obj c1\<rparr>))
          (snd (lift (call_hook (CallUpdate (header E c1) (latest_data E c1))
                        (update h (header E c1) (latest_data E c1)))
                  (step_publish_wait E h) (emit Poll (s\<lparr>task_checker := Obj c1\<rparr>))))"
    by (intro lift_rel[where R = "stays P"] call_hook_stays step_publish_wait_stays P message)
       (auto intro: stays_trans)
  from stays_trans[OF poll_stays[where P = P and s = s and ?c1.0 = c1, OF P(1)] this] message show ?thesis
    by (simp add: iteration_message)
qed

lemma loop_stays:
  assumes P: "P Poll" "P CallStep" "P CallPublish" "\<And>p. P (Sleep p)" "\<And>m. P (Log DEBUG m)"
    "\<And>k v. k \<noteq> ''STOP PROCESS'' \<Longrightarrow> P (CallUpdate k v)"
  shows "stays P s (snd (loop n E h s))"
proof (induction n arbitrary: s)
  case 0
  show ?case by simp
next
  case (Suc n)
  obtain r s1 where i: "iteration E h s = (r, s1)" by (cases "iteration E h s")
  have 1: "stays P s s1" using iteration_stays[of P s E h, OF P] i by simp
  show ?case
  proof (cases r)
    case Continue
    with i have "loop (Suc n) E h s = loop n E h s1" by simp
    with stays_trans[OF 1 Suc.IH[of s1]] show ?thesis by simp
  qed (use i 1 in simp_all)
qed

lemma loop_event_stays: "stays loop_event s (snd (loop n E h s))"
  by (rule loop_stays) simp_all

text \<open>The loop is left by \<^verbatim>\<open>break\<close> or by an exception as soon as an iteration is; more
  fuel changes nothing then.\<close>

lemma loop_more_fuel:
  "fst (loop n E h s) \<noteq> Continue \<Longrightarrow> loop (n + k) E h s = loop n E h s"
proof (induction n arbitrary: s)
  case 0
  then show ?case by simp
next
  case (Suc n)
  obtain r s1 where i: "iteration E h s = (r, s1)" by (cases "iteration E h s")
  show ?case
  proof (cases r)
    case Continue
    with i Suc.prems have "fst (loop n E h s1) \<noteq> Continue" by simp
    from Suc.IH[OF this] i Continue show ?thesis by simp
  qed (use i in simp_all)
qed

subsection \<open>The start\<close>

lemma startup_cases:
  obtains (import_fails) e where "import_MPFramework E = Some e"
      "startup E h s = (Some e, s)"
  | (reader_fails) e where "import_MPFramework E = None"
      "MPFTaskChecker E (inp s) (name s) = Inl e"
      "startup E h s = (Some e, emit NewTaskChecker s)"
  | (publisher_fails) c e where "import_MPFramework E = None"
      "MPFTaskChecker E (inp s) (name s) = Inr c"
      "MPFResultPublisher E (out s) (name s) = Inl e"
      "startup E h s = (Some e, emit NewResultPublisher ((emit NewTaskChecker s)\<lparr>task_checker := Obj c\<rparr>))"
  | (constructed) c p where "import_MPFramework E = None"
      "MPFTaskChecker E (inp s) (name s) = Inr c"
      "MPFResultPublisher E (out s) (name s) = Inr p"
      "startup E h s = init_phase h (built c p s)"
proof (cases "import_MPFramework E")
  case (Some e)
  then have "startup E h s = (Some e, s)"
    by (simp add: startup_def seq_def import_modules_def)
  with Some import_fails show ?thesis by blast
next
  case None
  show ?thesis
  proof (cases "MPFTaskChecker E (inp s) (name s)")
    case (Inl e)
    with None have "startup E h s = (Some e, emit NewTaskChecker s)"
      by (simp add: startup_def seq_def import_modules_def new_task_checker_def)
    with None Inl reader_fails show ?thesis by blast
  next
    case (Inr c)
    note c = this
    show ?thesis
    proof (cases "MPFResultPublisher E (out s) (name s)")
      case (Inl e)
      with None c have "startup E h s =
          (Some e, emit NewResultPublisher ((emit NewTaskChecker s)\<lparr>task_checker := Obj c\<rparr>))"
        by (simp add: startup_def seq_def import_modules_def new_task_checker_def
            new_results_publisher_def)
      with None c Inl publisher_fails show ?thesis by blast
    next
      case (Inr p)
      with None c have "startup E h s = init_phase h (built c p s)"
        by (simp add: startup_def seq_def import_modules_def new_task_checker_def
            new_results_publisher_def get_logger_def init_phase_def built_def)
      with None c Inr constructed show ?thesis by blast
    qed
  qed
qed

lemma built_fields [simp]:
  "MPFLog (built c p s) = Some (Logger ''MPFLogger'')"
  "task_checker (built c p s) = Obj c"
  "results_publisher (built c p s) = Obj p"
  "name (built c p s) = name s"
  "loop_wait_period (built c p s) = loop_wait_period s"
  "shared_memory (built c p s) = shared_memory s"
  "MPFProcess.more (built c p s) = MPFProcess.more s"
  "trace (built c p s) = trace s @ [NewTaskChecker, NewResultPublisher]"
  by (simp_all add: built_def)

lemma built_ready: "ready (built c p s)"
  by (simp add: ready_def)

lemma built_extends: "P NewTaskChecker \<Longrightarrow> P NewResultPublisher \<Longrightarrow> extends P s (built c p s)"
  by (simp add: extends_def built_def)

lemma init_phase_stays:
  assumes "P CallInit" "\<And>m. P (Log DEBUG m)"
  shows "stays P s (snd (init_phase h s))"
  unfolding init_phase_def
  by (intro seq_rel[where R = "stays P"] call_hook_stays log_call_stays assms)
     (auto intro: stays_trans)

text \<open>What the start appends, whatever its end.\<close>

lemma startup_extends:
  assumes P: "P NewTaskChecker" "P NewResultPublisher" "P CallInit" "\<And>m. P (Log DEBUG m)"
  shows "extends P s (snd (startup E h s))"
proof (cases rule: startup_cases[where E = E and h = h and s = s])
  case (import_fails e)
  then show ?thesis by simp
next
  case (reader_fails e)
  then show ?thesis by (simp add: extends_emit P)
next
  case (publisher_fails c e)
  then show ?thesis by (simp add: extends_def P)
next
  case (constructed c p)
  have "extends P (built c p s) (snd (init_phase h (built c p s)))"
    by (intro stays_extends[where P = P] init_phase_stays P)
  from extends_trans[OF built_extends[where P = P, OF P(1,2)] this] constructed
  show ?thesis by simp
qed

text \<open>Once the two channel objects are built, the object is ready, whatever \<^verbatim>\<open>init\<close> does.\<close>

lemma startup_built_ready:
  assumes "import_MPFramework E = None" "MPFTaskChecker E (inp s) (name s) = Inr c"
    "MPFResultPublisher E (out s) (name s) = Inr p"
  shows "ready (snd (startup E h s))" and "name (snd (startup E h s)) = name s"
proof -
  have st: "startup E h s = init_phase h (built c p s)"
    using assms by (cases rule: startup_cases[where E = E and h = h and s = s]) simp_all
  have "stays (\<lambda>ev. True) (built c p s) (snd (init_phase h (built c p s)))"
    by (rule init_phase_stays) simp_all
  then show "ready (snd (startup E h s))" "name (snd (startup E h s)) = name s"
    unfolding st using stays_ready[OF _ built_ready[of c p s]]
    by (simp_all add: stays_def extends_def)
qed

lemma startup_None_ready:
  assumes "startup E h s = (None, s0)"
  shows "ready s0" and "name s0 = name s"
  using assms startup_built_ready[of E s _ _ h]
  by (cases rule: startup_cases[where E = E and h = h and s = s]; simp)+

subsection \<open>The handler and the teardown\<close>

lemma seq_alt:
  "seq a b s = (case fst (a s) of None \<Rightarrow> b (snd (a s)) | Some e \<Rightarrow> (Some e, snd (a s)))"
  by (cases "a s") (simp add: seq_def split: option.splits)

lemma call_hook_alt:
  "call_hook ev f s =
     (fst (f (shared_memory s, MPFProcess.more s)),
      (emit ev s)\<lparr>shared_memory := fst (snd (f (shared_memory s, MPFProcess.more s))),
        MPFProcess.more := snd (snd (f (shared_memory s, MPFProcess.more s)))\<rparr>)"
  by (simp add: call_hook_def split: prod.splits)

lemma except_block_logger:
  "MPFLog s = Some lg \<Longrightarrow>
   except_block E e s =
     (None, emit (Log CRITICAL (msg_crashed (format_exc E (trace s) e) (name s))) s)"
  by (simp add: except_block_def log_call_Some)

lemma except_block_no_logger:
  "MPFLog s = None \<Longrightarrow> except_block E e s = (Some AttributeError, s)"
  by (simp add: except_block_def log_call_None)

lemma except_block_stays: "(\<And>m. P (Log CRITICAL m)) \<Longrightarrow> stays P s (snd (except_block E e s))"
  by (simp add: except_block_def log_call_stays)

lemma finally_block_actions:
  assumes "MPFLog s = Some lg"
  shows "\<exists>evs. trace (snd (finally_block E h s)) = trace s @ evs \<and>
    filter teardown_action evs =
      (case task_checker s of
         Deleted \<Rightarrow> []
       | PyNone \<Rightarrow>
           (case results_publisher s of
              Deleted \<Rightarrow> [] | PyNone \<Rightarrow> [CallCleanup] | Obj p \<Rightarrow> [DelPublisher, CallCleanup])
       | Obj c \<Rightarrow>
           (case checker_cleanup E c of
              Some e \<Rightarrow> [CheckerCleanup]
            | None \<Rightarrow> [CheckerCleanup, DelChecker] @
                (case results_publisher s of
                   Deleted \<Rightarrow> [] | PyNone \<Rightarrow> [CallCleanup]
                 | Obj p \<Rightarrow> [DelPublisher, CallCleanup])))"
  using assms
  by (simp add: finally_block_def release_task_checker_def release_results_publisher_def
      seq_alt log_call_def call_hook_alt emit_def
      split: attr.splits option.splits)

lemma finally_block_no_logger:
  assumes "MPFLog s = None"
  shows "fst (finally_block E h s) = Some AttributeError"
    and "count_list (trace (snd (finally_block E h s))) CallCleanup = count_list (trace s) CallCleanup"
  using assms
  by (simp_all add: finally_block_def release_task_checker_def release_results_publisher_def
      seq_alt log_call_def call_hook_alt emit_def
      split: attr.splits option.splits)

lemma finally_block_reader_raises:
  assumes "MPFLog s = Some lg" "task_checker s = Obj c" "checker_cleanup E c = Some e"
  shows "finally_block E h s =
           (Some e, emit CheckerCleanup (emit (Log DEBUG (msg_cleaning_checker (name s))) s))"
  using assms
  by (simp add: finally_block_def release_task_checker_def seq_alt log_call_def)

lemma finally_block_reaches_cleanup:
  assumes "MPFLog s = Some lg" "results_publisher s \<noteq> Deleted"
    and "task_checker s = PyNone \<or> (\<exists>c. task_checker s = Obj c \<and> checker_cleanup E c = None)"
  shows "fst (finally_block E h s) = fst (cleanup h (shared_memory s, MPFProcess.more s))"
    and "fst (cleanup h (shared_memory s, MPFProcess.more s)) \<noteq> None \<Longrightarrow>
           last (trace (snd (finally_block E h s))) = CallCleanup"
  using assms
  by (auto simp add: finally_block_def release_task_checker_def release_results_publisher_def
      seq_alt log_call_def call_hook_alt emit_def
      split: attr.splits option.splits)

lemma release_task_checker_extends:
  assumes "\<And>m. P (Log DEBUG m)" "P CheckerCleanup" "P DelChecker"
  shows "extends P s (snd (release_task_checker E s))"
  using assms
  by (simp add: release_task_checker_def seq_alt log_call_def extends_def emit_def
      split: attr.splits option.splits)

lemma release_results_publisher_extends:
  assumes "P DelPublisher"
  shows "extends P s (snd (release_results_publisher s))"
  using assms
  by (simp add: release_results_publisher_def extends_def split: attr.splits)

lemma finally_block_extends:
  assumes "\<And>m. P (Log DEBUG m)" "P CheckerCleanup" "P DelChecker" "P DelPublisher"
    "P CallCleanup"
  shows "extends P s (snd (finally_block E h s))"
  unfolding finally_block_def
  by (intro seq_rel[where R = "extends P"] release_task_checker_extends
      release_results_publisher_extends log_call_extends call_hook_extends assms)
     (auto intro: extends_trans)

subsection \<open>The whole of run\<close>

lemma try_block_cases:
  obtains (start_raises) e s0 where "startup E h s = (Some e, s0)"
      "try_block n E h s = (Raise e, s0)"
  | (started) s0 where "startup E h s = (None, s0)" "try_block n E h s = loop n E h s0"
  unfolding try_block_def by (rule lift_cases[of "startup E h" s "loop n E h"]) auto

lemma run_cases:
  obtains (running) s1 where "try_block n E h s = (Continue, s1)" "run n E h s = (Running, s1)"
  | (stopped) s1 where "try_block n E h s = (Break, s1)"
      "run n E h s = finish (finally_block E h s1)"
  | (crashed) e s1 where "try_block n E h s = (Raise e, s1)"
      "run n E h s = finish (finally_block E h (snd (except_block E e s1)))"
proof (cases "try_block n E h s")
  case (Pair r s1)
  then show ?thesis using that by (cases r) (simp_all add: run_def)
qed

lemma finish_fields [simp]:
  "snd (finish r) = snd r"
  "fst (finish r) = (case fst r of None \<Rightarrow> Returned | Some e \<Rightarrow> Raised e)"
  by (cases r; cases "fst r"; simp add: finish_def)+

lemma try_block_extends:
  assumes P: "P NewTaskChecker" "P NewResultPublisher" "P CallInit" "\<And>m. P (Log DEBUG m)"
    "P Poll" "P CallStep" "P CallPublish" "\<And>p. P (Sleep p)"
    "\<And>k v. k \<noteq> ''STOP PROCESS'' \<Longrightarrow> P (CallUpdate k v)"
  shows "extends P s (snd (try_block n E h s))"
proof (cases rule: try_block_cases[where E = E and h = h and s = s and n = n])
  case (start_raises e s0)
  with startup_extends[of P s E h] P show ?thesis by simp
next
  case (started s0)
  have 1: "extends P s s0" using startup_extends[of P s E h] P started by simp
  have "stays P s0 (snd (loop n E h s0))" by (rule loop_stays) (rule P | erule P)+
  from extends_trans[OF 1 stays_extends[OF this]] started show ?thesis by simp
qed

lemma run_extends:
  assumes P: "P NewTaskChecker" "P NewResultPublisher" "P CallInit" "\<And>lv m. P (Log lv m)"
    "P Poll" "P CallStep" "P CallPublish" "\<And>p. P (Sleep p)"
    "\<And>k v. k \<noteq> ''STOP PROCESS'' \<Longrightarrow> P (CallUpdate k v)"
    "P CheckerCleanup" "P DelChecker" "P DelPublisher" "P CallCleanup"
  shows "extends P s (snd (run n E h s))"
proof -
  have t: "extends P s (snd (try_block n E h s))"
    by (rule try_block_extends) (rule P | erule P)+
  have f: "\<And>x. extends P x (snd (finally_block E h x))"
    by (rule finally_block_extends) (rule P)+
  have x: "\<And>e x. extends P x (snd (except_block E e x))"
    by (rule stays_extends, rule except_block_stays) (rule P)
  show ?thesis
  proof (cases rule: run_cases[where E = E and h = h and s = s and n = n])
    case (running s1)
    with t show ?thesis by simp
  next
    case (stopped s1)
    with t f[of s1] show ?thesis by (auto intro: extends_trans)
  next
    case (crashed e s1)
    with t x[of s1 e] f[of "snd (except_block E e s1)"] show ?thesis
      by (auto intro: extends_trans)
  qed
qed

text \<open>Once the two channel objects are built, the object is ready when the \<^verbatim>\<open>try\<close> block
  is left, however it is left.\<close>

lemma try_block_ready:
  assumes "import_MPFramework E = None" "MPFTaskChecker E (inp s) (name s) = Inr c"
    "MPFResultPublisher E (out s) (name s) = Inr p"
  shows "ready (snd (try_block n E h s))" and "name (snd (try_block n E h s)) = name s"
proof -
  note b = startup_built_ready[OF assms, of h]
  have "ready (snd (try_block n E h s)) \<and> name (snd (try_block n E h s)) = name s"
  proof (cases rule: try_block_cases[where E = E and h = h and s = s and n = n])
    case (start_raises e s0)
    with b show ?thesis by simp
  next
    case (started s0)
    have l: "stays loop_event s0 (snd (loop n E h s0))" by (rule loop_event_stays)
    from b started have "ready s0" "name s0 = name s" by simp_all
    with stays_ready[OF l] l started show ?thesis by (simp add: stays_def extends_def)
  qed
  then show "ready (snd (try_block n E h s))" "name (snd (try_block n E h s)) = name s"
    by simp_all
qed

lemma try_block_started_ready:
  assumes "startup E h s = (None, s0)"
  shows "ready (snd (try_block n E h s))"
proof -
  from assms have "try_block n E h s = loop n E h s0" by (simp add: try_block_def lift_None)
  moreover have "stays loop_event s0 (snd (loop n E h s0))" by (rule loop_event_stays)
  ultimately show ?thesis using startup_None_ready(1)[OF assms] by (auto dest: stays_ready)
qed

text \<open>Once the two channel objects are built, the logger and the publisher are those of
  the start, and the reader is an object, when the \<^verbatim>\<open>try\<close> block is left.\<close>

lemma try_block_built:
  assumes "import_MPFramework E = None" "MPFTaskChecker E (inp s) (name s) = Inr c"
    "MPFResultPublisher E (out s) (name s) = Inr p"
  shows "stays (\<lambda>ev. True) (built c p s) (snd (try_block n E h s))"
proof -
  have st: "startup E h s = init_phase h (built c p s)"
    using assms by (cases rule: startup_cases[where E = E and h = h and s = s]) simp_all
  have i: "stays (\<lambda>ev. True) (built c p s) (snd (init_phase h (built c p s)))"
    by (rule init_phase_stays) simp_all
  show ?thesis
  proof (cases rule: try_block_cases[where E = E and h = h and s = s and n = n])
    case (start_raises e s0)
    from start_raises(1) st have "init_phase h (built c p s) = (Some e, s0)" by simp
    with i start_raises(2) show ?thesis by simp
  next
    case (started s0)
    from started(1) st have "init_phase h (built c p s) = (None, s0)" by simp
    with i have 1: "stays (\<lambda>ev. True) (built c p s) s0" by simp
    have 2: "stays (\<lambda>ev. True) s0 (snd (loop n E h s0))" by (rule loop_stays) simp_all
    from stays_trans[OF 1 2] started(2) show ?thesis by simp
  qed
qed

lemma try_block_built_fields:
  assumes "import_MPFramework E = None" "MPFTaskChecker E (inp s) (name s) = Inr c"
    "MPFResultPublisher E (out s) (name s) = Inr p"
  shows "MPFLog (snd (try_block n E h s)) = Some (Logger ''MPFLogger'')"
    and "results_publisher (snd (try_block n E h s)) = Obj p"
    and "\<exists>c1. task_checker (snd (try_block n E h s)) = Obj c1"
    and "name (snd (try_block n E h s)) = name s"
  using try_block_built[OF assms, of n h] by (simp_all add: stays_def extends_def)

text \<open>The teardown of an object with a logger, a reader and a publisher, event by event.\<close>

lemma finally_block_exact:
  assumes "MPFLog s = Some lg" "task_checker s = Obj c" "results_publisher s = Obj p"
  shows "trace (snd (finally_block E h s)) = trace s @
      (case checker_cleanup E c of
         Some x \<Rightarrow> [Log DEBUG (msg_cleaning_checker (name s)), CheckerCleanup]
       | None \<Rightarrow>
           [Log DEBUG (msg_cleaning_checker (name s)), CheckerCleanup, DelChecker,
            Log DEBUG (msg_cleaned_checker (name s)), DelPublisher,
            Log DEBUG (msg_cleaning_up (name s)), CallCleanup] @
           (case fst (cleanup h (shared_memory s, MPFProcess.more s)) of
              None \<Rightarrow> [Log DEBUG (msg_exiting (name s))] | Some x \<Rightarrow> []))"
    and "fst (finally_block E h s) =
      (case checker_cleanup E c of
         Some x \<Rightarrow> Some x
       | None \<Rightarrow> fst (cleanup h (shared_memory s, MPFProcess.more s)))"
  using assms
  by (simp_all add: finally_block_def release_task_checker_def release_results_publisher_def
      seq_alt log_call_def call_hook_alt emit_def split: option.splits)

subsection \<open>An exception before the logger is assigned\<close>

text \<open>
  C10. When the start raises while the logger is still \<^verbatim>\<open>None\<close> (the import or one of the
  two constructors failed), the handler raises \<^verbatim>\<open>AttributeError\<close> at its log call, the
  teardown raises \<^verbatim>\<open>AttributeError\<close> at a log call of its own, that exception leaves
  \<^verbatim>\<open>run\<close>, and \<^verbatim>\<open>cleanup\<close> has not been called.
\<close>

theorem no_logger_no_cleanup:
  assumes "startup E h s = (Some e, s1)" and "MPFLog s1 = None"
  shows "except_block E e s1 = (Some AttributeError, s1) \<and>
         fst (finally_block E h s1) = Some AttributeError \<and>
         fst (run n E h s) = Raised AttributeError \<and>
         count_list (trace (snd (run n E h s))) CallCleanup = count_list (trace s) CallCleanup"
proof -
  have x: "except_block E e s1 = (Some AttributeError, s1)"
    using assms(2) by (rule except_block_no_logger)
  have f: "fst (finally_block E h s1) = Some AttributeError"
    using assms(2) by (rule finally_block_no_logger)
  have t: "try_block n E h s = (Raise e, s1)"
    using assms(1) by (simp add: try_block_def lift_Some)
  have r: "run n E h s = finish (finally_block E h s1)"
    using t x by (simp add: run_def)
  have "extends (\<lambda>ev. ev \<noteq> CallCleanup) s (snd (startup E h s))"
    by (rule startup_extends) simp_all
  then have "count_list (trace s1) CallCleanup = count_list (trace s) CallCleanup"
    using assms(1) by (auto dest: extends_count)
  with finally_block_no_logger(2)[OF assms(2), of E h] r f x show ?thesis by simp
qed

theorem no_logger_no_cleanup_witness:
  "startup no_publisher_env (counting_hooks 0) (worker_w1 []) =
     (Some (Exn ''no result channel''),
      snd (startup no_publisher_env (counting_hooks 0) (worker_w1 []))) \<and>
   MPFLog (snd (startup no_publisher_env (counting_hooks 0) (worker_w1 []))) = None \<and>
   task_checker (snd (startup no_publisher_env (counting_hooks 0) (worker_w1 []))) =
     Obj \<lparr>script = [], hdr = [], dat = None\<rparr> \<and>
   fst (run 3 no_publisher_env (counting_hooks 0) (worker_w1 [])) = Raised AttributeError \<and>
   count_list (trace (snd (run 3 no_publisher_env (counting_hooks 0) (worker_w1 []))))
     CallCleanup = 0"
proof -
  let ?s = "worker_w1 []"
  have st: "startup no_publisher_env (counting_hooks 0) ?s =
      (Some (Exn ''no result channel''),
       emit NewResultPublisher ((emit NewTaskChecker ?s)
         \<lparr>task_checker := Obj \<lparr>script = [], hdr = [], dat = None\<rparr>\<rparr>))"
    by (simp add: startup_def seq_alt import_modules_def new_task_checker_def
        new_results_publisher_def no_publisher_env_def script_env_def worker_w1_def
        MPFProcess_new_def)
  have lg: "MPFLog (emit NewResultPublisher ((emit NewTaskChecker ?s)
         \<lparr>task_checker := Obj \<lparr>script = [], hdr = [], dat = None\<rparr>\<rparr>)) = None"
    by (simp add: worker_w1_def MPFProcess_new_def)
  have "trace ?s = []" by (simp add: worker_w1_def MPFProcess_new_def)
  with no_logger_no_cleanup[OF st lg, of 3] st lg show ?thesis by simp
qed

subsection \<open>Exceptions of the teardown\<close>

text \<open>
  C7. Let the \<^verbatim>\<open>try\<close> block have ended, with the logger assigned and the reader an
  object. If the reader's \<^verbatim>\<open>cleanup\<close> raises, that exception leaves \<^verbatim>\<open>run\<close>, and the
  call of the reader's \<^verbatim>\<open>cleanup\<close> is the last thing \<^verbatim>\<open>run\<close> did: the handler does not
  log it. If the reader's \<^verbatim>\<open>cleanup\<close> returns and the worker's \<^verbatim>\<open>cleanup\<close> raises, that
  exception leaves \<^verbatim>\<open>run\<close>, and the call of the worker's \<^verbatim>\<open>cleanup\<close> is the last thing
  \<^verbatim>\<open>run\<close> did.
\<close>

theorem teardown_exception_leaves_run:
  assumes "try_block n E h s = (r, s1)" and "r \<noteq> Continue"
    and "MPFLog s1 = Some lg" and "task_checker s1 = Obj c"
  shows "(checker_cleanup E c = Some e \<longrightarrow>
            fst (run n E h s) = Raised e \<and>
            last (trace (snd (run n E h s))) = CheckerCleanup) \<and>
         (checker_cleanup E c = None \<and> results_publisher s1 \<noteq> Deleted \<and>
          fst (cleanup h (shared_memory s1, MPFProcess.more s1)) = Some e \<longrightarrow>
            fst (run n E h s) = Raised e \<and>
            last (trace (snd (run n E h s))) = CallCleanup)"
proof -
  define s2 where "s2 = (case r of Raise x \<Rightarrow> snd (except_block E x s1) | _ \<Rightarrow> s1)"
  have r: "run n E h s = finish (finally_block E h s2)"
    using assms(1,2) by (cases r) (simp_all add: run_def s2_def)
  have s2: "MPFLog s2 = Some lg" "task_checker s2 = Obj c"
    "results_publisher s2 = results_publisher s1" "shared_memory s2 = shared_memory s1"
    "MPFProcess.more s2 = MPFProcess.more s1"
    using assms(3,4) by (cases r; simp add: s2_def except_block_def)+
  have a: "fst (run n E h s) = Raised e \<and> last (trace (snd (run n E h s))) = CheckerCleanup"
    if "checker_cleanup E c = Some e"
    using finally_block_reader_raises[OF s2(1,2) that, of h] r by simp
  have b: "fst (run n E h s) = Raised e \<and> last (trace (snd (run n E h s))) = CallCleanup"
    if "checker_cleanup E c = None" "results_publisher s1 \<noteq> Deleted"
      "fst (cleanup h (shared_memory s1, MPFProcess.more s1)) = Some e"
  proof -
    have c: "task_checker s2 = PyNone \<or> (\<exists>c. task_checker s2 = Obj c \<and> checker_cleanup E c = None)"
      using s2(2) that(1) by simp
    have p: "results_publisher s2 \<noteq> Deleted" using s2(3) that(2) by simp
    from finally_block_reaches_cleanup[OF s2(1) p c, of h] that(3) s2(4,5) r
    show ?thesis by simp
  qed
  from a b show ?thesis by blast
qed

theorem teardown_exception_leaves_run_witness:
  "fst (try_block 1 (script_env (Some (Exn ''reader cleanup failed''))) (counting_hooks 0)
          (worker_w1 [Message ''STOP PROCESS'' None])) = Break \<and>
   fst (run 1 (script_env (Some (Exn ''reader cleanup failed''))) (counting_hooks 0)
          (worker_w1 [Message ''STOP PROCESS'' None])) = Raised (Exn ''reader cleanup failed'') \<and>
   last (trace (snd (run 1 (script_env (Some (Exn ''reader cleanup failed''))) (counting_hooks 0)
          (worker_w1 [Message ''STOP PROCESS'' None])))) = CheckerCleanup \<and>
   fst (try_block 1 (script_env None) failing_cleanup_hooks
          (worker_w1 [Message ''STOP PROCESS'' None])) = Break \<and>
   fst (run 1 (script_env None) failing_cleanup_hooks
          (worker_w1 [Message ''STOP PROCESS'' None])) = Raised (Exn ''cleanup failed'') \<and>
   last (trace (snd (run 1 (script_env None) failing_cleanup_hooks
          (worker_w1 [Message ''STOP PROCESS'' None])))) = CallCleanup"
proof -
  let ?w = "worker_w1 [Message ''STOP PROCESS'' None]"
  let ?c = "\<lparr>script = [], hdr = ''STOP PROCESS'', dat = None\<rparr>"
  let ?E1 = "script_env (Some (Exn ''reader cleanup failed''))"
  let ?E2 = "script_env None"
  let ?s1 = "snd (try_block 1 ?E1 (counting_hooks 0) ?w)"
  let ?s2 = "snd (try_block 1 ?E2 failing_cleanup_hooks ?w)"
  note defs = try_block_def lift_def startup_def seq_alt import_modules_def
    new_task_checker_def new_results_publisher_def get_logger_def log_call_def call_hook_alt
    iteration_def poll_script_def script_env_def counting_hooks_def failing_cleanup_hooks_def
    worker_w1_def MPFProcess_new_def emit_def
  have t1: "fst (try_block 1 ?E1 (counting_hooks 0) ?w) = Break"
    "MPFLog ?s1 = Some (Logger ''MPFLogger'')" "task_checker ?s1 = Obj ?c"
    by (simp_all add: defs)
  have t2: "fst (try_block 1 ?E2 failing_cleanup_hooks ?w) = Break"
    "MPFLog ?s2 = Some (Logger ''MPFLogger'')" "task_checker ?s2 = Obj ?c"
    "results_publisher ?s2 \<noteq> Deleted"
    by (simp_all add: defs)
  have p1: "try_block 1 ?E1 (counting_hooks 0) ?w = (Break, ?s1)"
    using t1(1) by (simp add: prod_eq_iff)
  have p2: "try_block 1 ?E2 failing_cleanup_hooks ?w = (Break, ?s2)"
    using t2(1) by (simp add: prod_eq_iff)
  have c1: "checker_cleanup ?E1 ?c = Some (Exn ''reader cleanup failed'')"
    by (simp add: script_env_def)
  have c2: "checker_cleanup ?E2 ?c = None \<and> results_publisher ?s2 \<noteq> Deleted \<and>
      fst (cleanup failing_cleanup_hooks (shared_memory ?s2, MPFProcess.more ?s2))
        = Some (Exn ''cleanup failed'')"
    using t2(4) by (simp add: script_env_def failing_cleanup_hooks_def)
  from teardown_exception_leaves_run[OF p1 _ t1(2,3), of "Exn ''reader cleanup failed''"] c1
  have a: "fst (run 1 ?E1 (counting_hooks 0) ?w) = Raised (Exn ''reader cleanup failed'') \<and>
      last (trace (snd (run 1 ?E1 (counting_hooks 0) ?w))) = CheckerCleanup"
    by simp
  from teardown_exception_leaves_run[OF p2 _ t2(2,3), of "Exn ''cleanup failed''"] c2
  have b: "fst (run 1 ?E2 failing_cleanup_hooks ?w) = Raised (Exn ''cleanup failed'') \<and>
      last (trace (snd (run 1 ?E2 failing_cleanup_hooks ?w))) = CallCleanup"
    by simp
  from a b t1(1) t2(1) show ?thesis by simp
qed

subsection \<open>A crash in \<^verbatim>\<open>init\<close> or in the loop\<close>



subsection \<open>The stop header\<close>

text \<open>
  C3. \<^verbatim>\<open>run\<close> never calls \<^verbatim>\<open>update\<close> with the header \<^verbatim>\<open>"STOP PROCESS"\<close>: the trace has as
  many such calls after \<^verbatim>\<open>run\<close>, however far it got, as before. And an iteration whose
  poll reports a message with that header makes no call after the poll but the debug
  log, and ends the loop by \<^verbatim>\<open>break\<close>, whatever fuel is left: no later iteration.
\<close>

theorem stop_header_ends_loop:
  "count_list (trace (snd (run n E h s))) (CallUpdate ''STOP PROCESS'' d) =
     count_list (trace s) (CallUpdate ''STOP PROCESS'' d) \<and>
   (task_checker s = Obj c \<and> check_for_update E c = (Inr True, c1) \<and>
    header E c1 = ''STOP PROCESS'' \<and> MPFLog s = Some lg \<longrightarrow>
      loop (Suc m) E h s =
        (Break, s\<lparr>task_checker := Obj c1,
                  trace := trace s @ [Poll, Log DEBUG (msg_stop (name s))]\<rparr>))"
proof -
  have "extends run_event s (snd (run n E h s))"
    by (rule run_extends) simp_all
  then have 1: "count_list (trace (snd (run n E h s))) (CallUpdate ''STOP PROCESS'' d) =
     count_list (trace s) (CallUpdate ''STOP PROCESS'' d)"
    by (rule extends_count) simp
  have 2: "loop (Suc m) E h s =
        (Break, s\<lparr>task_checker := Obj c1,
                  trace := trace s @ [Poll, Log DEBUG (msg_stop (name s))]\<rparr>)"
    if "task_checker s = Obj c" "check_for_update E c = (Inr True, c1)"
      "header E c1 = ''STOP PROCESS''" "MPFLog s = Some lg"
    using that by (simp add: iteration_stop lift_def log_call_def emit_def)
  from 1 2 show ?thesis by blast
qed

theorem stop_header_ends_loop_witness:
  "task_checker (built \<lparr>script = [Message ''STOP PROCESS'' None], hdr = [], dat = None\<rparr> ()
       (worker_w1 [Message ''STOP PROCESS'' None]))
     = Obj \<lparr>script = [Message ''STOP PROCESS'' None], hdr = [], dat = None\<rparr> \<and>
   check_for_update (script_env None)
       \<lparr>script = [Message ''STOP PROCESS'' None], hdr = [], dat = None\<rparr>
     = (Inr True, \<lparr>script = [], hdr = ''STOP PROCESS'', dat = None\<rparr>) \<and>
   header (script_env None) \<lparr>script = [], hdr = ''STOP PROCESS'', dat = None\<rparr>
     = ''STOP PROCESS'' \<and>
   fst (loop (Suc 7) (script_env None) (counting_hooks 0)
          (built \<lparr>script = [Message ''STOP PROCESS'' None], hdr = [], dat = None\<rparr> ()
             (worker_w1 [Message ''STOP PROCESS'' None]))) = Break \<and>
   trace (snd (loop (Suc 7) (script_env None) (counting_hooks 0)
          (built \<lparr>script = [Message ''STOP PROCESS'' None], hdr = [], dat = None\<rparr> ()
             (worker_w1 [Message ''STOP PROCESS'' None])))) =
     [NewTaskChecker, NewResultPublisher, Poll, Log DEBUG ''PROCESS w1 RECEIVED STOP SIGNAL!'']"
proof -
  let ?c = "\<lparr>script = [Message ''STOP PROCESS'' None], hdr = [], dat = None\<rparr>"
  let ?c1 = "\<lparr>script = [], hdr = ''STOP PROCESS'', dat = None\<rparr>"
  let ?s = "built ?c () (worker_w1 [Message ''STOP PROCESS'' None])"
  have a: "task_checker ?s = Obj ?c" by simp
  have b: "check_for_update (script_env None) ?c = (Inr True, ?c1)"
    by (simp add: script_env_def poll_script_def)
  have c: "header (script_env None) ?c1 = ''STOP PROCESS''"
    by (simp add: script_env_def)
  have d: "MPFLog ?s = Some (Logger ''MPFLogger'')" by simp
  have e: "name ?s = ''w1''" "trace ?s = [NewTaskChecker, NewResultPublisher]"
    by (simp_all add: worker_w1_def MPFProcess_new_def)
  from stop_header_ends_loop[of 0 "script_env None" "counting_hooks 0" ?s None ?c ?c1
      "Logger ''MPFLogger''" 7] a b c d
  have "loop (Suc 7) (script_env None) (counting_hooks 0) ?s =
        (Break, ?s\<lparr>task_checker := Obj ?c1,
                  trace := trace ?s @ [Poll, Log DEBUG (msg_stop (name ?s))]\<rparr>)"
    by blast
  with a b c e show ?thesis by (simp add: msg_stop_def)
qed

subsection \<open>How often \<^verbatim>\<open>cleanup\<close> is called\<close>

lemma count_list_filter: "P x \<Longrightarrow> count_list (filter P xs) x = count_list xs x"
  by (induction xs) auto

lemma finally_block_cleanup_count:
  assumes "MPFLog s = Some lg" "task_checker s = Obj c" "results_publisher s \<noteq> Deleted"
  shows "count_list (trace (snd (finally_block E h s))) CallCleanup =
           count_list (trace s) CallCleanup + (if checker_cleanup E c = None then 1 else 0)"
proof -
  from finally_block_actions[OF assms(1), of E h] assms(2,3)
  obtain evs where t: "trace (snd (finally_block E h s)) = trace s @ evs"
    and f: "filter teardown_action evs =
      (case checker_cleanup E c of
         Some e \<Rightarrow> [CheckerCleanup]
       | None \<Rightarrow> [CheckerCleanup, DelChecker] @
           (case results_publisher s of
              Deleted \<Rightarrow> [] | PyNone \<Rightarrow> [CallCleanup] | Obj p \<Rightarrow> [DelPublisher, CallCleanup]))"
    by auto
  have "count_list evs CallCleanup = count_list (filter teardown_action evs) CallCleanup"
    by (simp add: count_list_filter)
  also have "\<dots> = (if checker_cleanup E c = None then 1 else 0)"
    unfolding f using assms(3) by (simp split: option.splits attr.splits)
  finally show ?thesis using t by simp
qed

lemma finally_block_returns:
  assumes "MPFLog s = Some lg" "task_checker s = Obj c" "fst (finally_block E h s) = None"
  shows "checker_cleanup E c = None"
proof (cases "checker_cleanup E c")
  case (Some e)
  from finally_block_reader_raises[OF assms(1,2) Some, of h] assms(3) show ?thesis by simp
qed simp

text \<open>The object at the start of the teardown, when the object was ready at the end of
  the \<^verbatim>\<open>try\<close> block.\<close>

lemma run_ended:
  assumes "ready (snd (try_block n E h s))" and "fst (run n E h s) \<noteq> Running"
  obtains s2 where "run n E h s = finish (finally_block E h s2)"
    and "stays (\<lambda>ev. \<exists>m. ev = Log CRITICAL m) (snd (try_block n E h s)) s2"
proof (cases rule: run_cases[where E = E and h = h and s = s and n = n])
  case (running s1)
  with assms(2) show ?thesis by simp
next
  case (stopped s1)
  with that[of s1] show ?thesis by simp
next
  case (crashed e s1)
  have "stays (\<lambda>ev. \<exists>m. ev = Log CRITICAL m) s1 (snd (except_block E e s1))"
    by (rule except_block_stays) simp
  with that[of "snd (except_block E e s1)"] crashed show ?thesis by simp
qed

text \<open>
  C1, as the code has it. Let \<^verbatim>\<open>init\<close> have returned, so that the loop is entered, and
  let the loop have been left, at the stop header or by an exception that the handler
  caught. Then \<^verbatim>\<open>run\<close> ends, and the reader is an object at the teardown. If the
  reader's \<^verbatim>\<open>cleanup\<close> returns there, \<^verbatim>\<open>run\<close> has called \<^verbatim>\<open>cleanup\<close> exactly once. If
  the reader's \<^verbatim>\<open>cleanup\<close> raises there, \<^verbatim>\<open>run\<close> has not called \<^verbatim>\<open>cleanup\<close> and that
  exception leaves \<^verbatim>\<open>run\<close>. So \<^verbatim>\<open>cleanup\<close> is called at most once, and exactly once
  whenever \<^verbatim>\<open>run\<close> returns.
\<close>

theorem cleanup_at_most_once:
  assumes "startup E h s = (None, s0)" and "try_block n E h s = (r, s1)" and "r \<noteq> Continue"
  shows "\<exists>c. task_checker s1 = Obj c \<and>
     (case checker_cleanup E c of
        None \<Rightarrow>
          count_list (trace (snd (run n E h s))) CallCleanup =
            count_list (trace s) CallCleanup + 1
      | Some x \<Rightarrow>
          count_list (trace (snd (run n E h s))) CallCleanup =
            count_list (trace s) CallCleanup \<and>
          fst (run n E h s) = Raised x) \<and>
     count_list (trace (snd (run n E h s))) CallCleanup \<le> count_list (trace s) CallCleanup + 1 \<and>
     (fst (run n E h s) = Returned \<longrightarrow>
        count_list (trace (snd (run n E h s))) CallCleanup =
          count_list (trace s) CallCleanup + 1) \<and>
     fst (run n E h s) \<noteq> Running"
proof -
  have s1: "s1 = snd (try_block n E h s)" using assms(2) by simp
  have rdy: "ready s1" unfolding s1 using assms(1) by (rule try_block_started_ready)
  have "extends (\<lambda>ev. ev \<noteq> CallCleanup) s (snd (try_block n E h s))"
    by (rule try_block_extends) simp_all
  then have c1: "count_list (trace s1) CallCleanup = count_list (trace s) CallCleanup"
    unfolding s1 by (rule extends_count) simp
  define s2 where "s2 = (case r of Raise x \<Rightarrow> snd (except_block E x s1) | _ \<Rightarrow> s1)"
  have r: "run n E h s = finish (finally_block E h s2)"
    using assms(2,3) by (cases r) (simp_all add: run_def s2_def)
  have st: "stays (\<lambda>ev. \<exists>m. ev = Log CRITICAL m) s1 s2"
    unfolding s2_def by (cases r) (simp_all add: except_block_stays)
  from rdy obtain c where c: "task_checker s1 = Obj c" by (auto simp: ready_def)
  from stays_ready[OF st rdy] obtain lg where lg: "MPFLog s2 = Some lg"
    and pb: "results_publisher s2 \<noteq> Deleted" by (auto simp: ready_def)
  have c': "task_checker s2 = Obj c"
    unfolding s2_def using c by (cases r) (simp_all add: except_block_def)
  have c2: "count_list (trace s2) CallCleanup = count_list (trace s1) CallCleanup"
    using stays_extends[OF st] by (rule extends_count) simp
  have cnt: "count_list (trace (snd (run n E h s))) CallCleanup =
      count_list (trace s) CallCleanup + (if checker_cleanup E c = None then 1 else 0)"
    using finally_block_cleanup_count[OF lg c' pb, of E h] c1 c2 r by simp
  have rs: "fst (run n E h s) = Raised x" if "checker_cleanup E c = Some x" for x
    using finally_block_reader_raises[OF lg c' that, of h] r by simp
  have ret: "checker_cleanup E c = None" if "fst (run n E h s) = Returned"
    using that rs by (cases "checker_cleanup E c") auto
  have nr: "fst (run n E h s) \<noteq> Running"
    unfolding r by (simp split: option.splits)
  have a: "case checker_cleanup E c of
        None \<Rightarrow>
          count_list (trace (snd (run n E h s))) CallCleanup =
            count_list (trace s) CallCleanup + 1
      | Some x \<Rightarrow>
          count_list (trace (snd (run n E h s))) CallCleanup =
            count_list (trace s) CallCleanup \<and>
          fst (run n E h s) = Raised x"
    using cnt rs by (simp split: option.splits)
  have b: "count_list (trace (snd (run n E h s))) CallCleanup \<le>
      count_list (trace s) CallCleanup + 1"
    using cnt by simp
  have d: "fst (run n E h s) = Returned \<longrightarrow>
        count_list (trace (snd (run n E h s))) CallCleanup =
          count_list (trace s) CallCleanup + 1"
    using cnt ret by simp
  from c a b d nr show ?thesis by blast
qed

theorem cleanup_at_most_once_witness:
  "fst (startup (script_env None) (counting_hooks 0)
       (worker_w1 [Message ''DO_X'' (Some 42), Message ''STOP PROCESS'' None])) = None \<and>
   fst (try_block 2 (script_env None) (counting_hooks 0)
       (worker_w1 [Message ''DO_X'' (Some 42), Message ''STOP PROCESS'' None])) = Break \<and>
   fst (run 2 (script_env None) (counting_hooks 0)
       (worker_w1 [Message ''DO_X'' (Some 42), Message ''STOP PROCESS'' None])) = Returned \<and>
   count_list (trace (snd (run 2 (script_env None) (counting_hooks 0)
       (worker_w1 [Message ''DO_X'' (Some 42), Message ''STOP PROCESS'' None])))) CallCleanup = 1 \<and>
   fst (startup (script_env (Some (Exn ''reader cleanup failed''))) (counting_hooks 2)
       (worker_w1 [])) = None \<and>
   fst (try_block 2 (script_env (Some (Exn ''reader cleanup failed''))) (counting_hooks 2)
       (worker_w1 [])) = Raise (Exn ''step failed'') \<and>
   fst (run 2 (script_env (Some (Exn ''reader cleanup failed''))) (counting_hooks 2)
       (worker_w1 [])) = Raised (Exn ''reader cleanup failed'') \<and>
   count_list (trace (snd (run 2 (script_env (Some (Exn ''reader cleanup failed'')))
       (counting_hooks 2) (worker_w1 [])))) CallCleanup = 0"
proof -
  let ?E = "script_env None"
  let ?h = "counting_hooks 0"
  let ?w = "worker_w1 [Message ''DO_X'' (Some 42), Message ''STOP PROCESS'' None]"
  let ?F = "script_env (Some (Exn ''reader cleanup failed''))"
  let ?g = "counting_hooks 2"
  let ?v = "worker_w1 []"
  note defs = try_block_def lift_def startup_def seq_alt import_modules_def
    new_task_checker_def new_results_publisher_def get_logger_def log_call_def call_hook_alt
    iteration_def step_publish_wait_def wait_def poll_script_def script_env_def
    counting_hooks_def worker_w1_def MPFProcess_new_def emit_def
  have a: "fst (startup ?E ?h ?w) = None" by (simp add: defs)
  then have a': "startup ?E ?h ?w = (None, snd (startup ?E ?h ?w))" by (simp add: prod_eq_iff)
  have b: "fst (try_block 2 ?E ?h ?w) = Break" by (simp add: defs numeral_2_eq_2)
  then have b': "try_block 2 ?E ?h ?w = (Break, snd (try_block 2 ?E ?h ?w))"
    by (simp add: prod_eq_iff)
  have k: "checker_cleanup ?E c = None" for c by (simp add: script_env_def)
  have t: "trace ?w = []" "trace ?v = []" by (simp_all add: worker_w1_def MPFProcess_new_def)
  have 1: "fst (run 2 ?E ?h ?w) = Returned \<and>
      count_list (trace (snd (run 2 ?E ?h ?w))) CallCleanup = 1"
  proof -
    from cleanup_at_most_once[OF a' b'] obtain c where
      x: "case checker_cleanup ?E c of
        None \<Rightarrow> count_list (trace (snd (run 2 ?E ?h ?w))) CallCleanup =
            count_list (trace ?w) CallCleanup + 1
      | Some x \<Rightarrow> count_list (trace (snd (run 2 ?E ?h ?w))) CallCleanup =
            count_list (trace ?w) CallCleanup \<and> fst (run 2 ?E ?h ?w) = Raised x"
      by auto
    have "fst (run 2 ?E ?h ?w) = Returned"
      by (simp add: run_def defs finally_block_def release_task_checker_def
          release_results_publisher_def except_block_def finish_def numeral_2_eq_2)
    with x show ?thesis by (simp add: k t)
  qed
  have d: "fst (startup ?F ?g ?v) = None" by (simp add: defs)
  then have d': "startup ?F ?g ?v = (None, snd (startup ?F ?g ?v))" by (simp add: prod_eq_iff)
  have e: "fst (try_block 2 ?F ?g ?v) = Raise (Exn ''step failed'')"
    by (simp add: defs numeral_2_eq_2)
  then have e': "try_block 2 ?F ?g ?v = (Raise (Exn ''step failed''), snd (try_block 2 ?F ?g ?v))"
    by (simp add: prod_eq_iff)
  have l: "checker_cleanup ?F c = Some (Exn ''reader cleanup failed'')" for c
    by (simp add: script_env_def)
  have 2: "fst (run 2 ?F ?g ?v) = Raised (Exn ''reader cleanup failed'') \<and>
      count_list (trace (snd (run 2 ?F ?g ?v))) CallCleanup = 0"
  proof -
    from cleanup_at_most_once[OF d' e'] obtain c where
      "case checker_cleanup ?F c of
        None \<Rightarrow> count_list (trace (snd (run 2 ?F ?g ?v))) CallCleanup =
            count_list (trace ?v) CallCleanup + 1
      | Some x \<Rightarrow> count_list (trace (snd (run 2 ?F ?g ?v))) CallCleanup =
            count_list (trace ?v) CallCleanup \<and> fst (run 2 ?F ?g ?v) = Raised x"
      by auto
    then show ?thesis by (simp add: l t)
  qed
  from a b 1 d e 2 show ?thesis by simp
qed

text \<open>
  The claim C1 as the specification words it fails: here \<^verbatim>\<open>init\<close> returns, the loop is
  entered and left at the stop header, the reader's \<^verbatim>\<open>cleanup\<close> raises, \<^verbatim>\<open>run\<close> ends with
  that exception, and \<^verbatim>\<open>cleanup\<close> has not been called.
\<close>

theorem cleanup_exactly_once_counterexample:
  "fst (startup (script_env (Some (Exn ''reader cleanup failed''))) (counting_hooks 0)
       (worker_w1 [Message ''STOP PROCESS'' None])) = None \<and>
   fst (try_block 1 (script_env (Some (Exn ''reader cleanup failed''))) (counting_hooks 0)
       (worker_w1 [Message ''STOP PROCESS'' None])) = Break \<and>
   fst (run 1 (script_env (Some (Exn ''reader cleanup failed''))) (counting_hooks 0)
       (worker_w1 [Message ''STOP PROCESS'' None])) = Raised (Exn ''reader cleanup failed'') \<and>
   count_list (trace (snd (run 1 (script_env (Some (Exn ''reader cleanup failed'')))
       (counting_hooks 0) (worker_w1 [Message ''STOP PROCESS'' None])))) CallCleanup = 0"
  by (simp add: run_def try_block_def lift_def startup_def seq_alt import_modules_def
    new_task_checker_def new_results_publisher_def get_logger_def log_call_def call_hook_alt
    iteration_def step_publish_wait_def wait_def poll_script_def script_env_def
    counting_hooks_def worker_w1_def MPFProcess_new_def emit_def finally_block_def
    release_task_checker_def release_results_publisher_def except_block_def finish_def)

subsection \<open>When \<^verbatim>\<open>init\<close> raises\<close>

lemma init_phase_raises:
  assumes "MPFLog s = Some lg" and "fst (init h (shared_memory s, MPFProcess.more s)) = Some e"
  shows "fst (init_phase h s) = Some e"
    and "stays (\<lambda>ev. ev = CallInit \<or> (\<exists>m. ev = Log DEBUG m)) s (snd (init_phase h s))"
proof -
  show "fst (init_phase h s) = Some e"
    using assms by (simp add: init_phase_def seq_alt log_call_def)
  show "stays (\<lambda>ev. ev = CallInit \<or> (\<exists>m. ev = Log DEBUG m)) s (snd (init_phase h s))"
    by (rule init_phase_stays) simp_all
qed

text \<open>
  C5, as the code has it. Let the import and the two constructors have succeeded and let
  \<^verbatim>\<open>init\<close> raise. Then \<^verbatim>\<open>run\<close> ends whatever the fuel, \<^verbatim>\<open>step\<close> and \<^verbatim>\<open>publish\<close> are not
  called, and \<^verbatim>\<open>cleanup\<close> is called once if the reader's \<^verbatim>\<open>cleanup\<close> returns, and not at
  all if it raises; in that case the reader's exception leaves \<^verbatim>\<open>run\<close>.
\<close>

theorem init_raises_then_teardown:
  assumes "import_MPFramework E = None" and "MPFTaskChecker E (inp s) (name s) = Inr c"
    and "MPFResultPublisher E (out s) (name s) = Inr p"
    and "fst (init h (shared_memory s, MPFProcess.more s)) = Some e"
  shows "fst (run n E h s) \<noteq> Running \<and>
         count_list (trace (snd (run n E h s))) CallStep = count_list (trace s) CallStep \<and>
         count_list (trace (snd (run n E h s))) CallPublish = count_list (trace s) CallPublish \<and>
         count_list (trace (snd (run n E h s))) CallCleanup =
           count_list (trace s) CallCleanup + (if checker_cleanup E c = None then 1 else 0) \<and>
         (\<forall>x. checker_cleanup E c = Some x \<longrightarrow> fst (run n E h s) = Raised x)"
proof -
  let ?b = "built c p s"
  let ?s0 = "snd (init_phase h ?b)"
  let ?s2 = "snd (except_block E e ?s0)"
  let ?P = "\<lambda>ev. ev \<noteq> CallStep \<and> ev \<noteq> CallPublish \<and> ev \<noteq> CallCleanup"
  have st: "startup E h s = init_phase h ?b"
    using assms(1-3) by (cases rule: startup_cases[where E = E and h = h and s = s]) simp_all
  have i: "fst (init h (shared_memory ?b, MPFProcess.more ?b)) = Some e"
    using assms(4) by simp
  from init_phase_raises[OF built_fields(1) i]
  have r0: "fst (init_phase h ?b) = Some e"
    and s0: "stays (\<lambda>ev. ev = CallInit \<or> (\<exists>m. ev = Log DEBUG m)) ?b ?s0" by simp_all
  have "startup E h s = (Some e, ?s0)"
    using st r0 by (simp add: prod_eq_iff)
  then have t: "try_block n E h s = (Raise e, ?s0)"
    by (simp add: try_block_def lift_Some)
  have r: "run n E h s = finish (finally_block E h ?s2)"
    using t by (simp add: run_def)
  have x: "stays (\<lambda>ev. \<exists>m. ev = Log CRITICAL m) ?s0 ?s2"
    by (rule except_block_stays) simp
  have c0: "task_checker ?s0 = Obj c" "MPFLog ?s0 = Some (Logger ''MPFLogger'')"
    "results_publisher ?s0 = Obj p"
    unfolding init_phase_def by (simp_all add: seq_alt log_call_def split: option.splits)
  have c2: "task_checker ?s2 = Obj c" "MPFLog ?s2 = Some (Logger ''MPFLogger'')"
    "results_publisher ?s2 \<noteq> Deleted"
    using c0 by (simp_all add: except_block_def)
  have e1: "extends ?P s ?b" by (rule built_extends) simp_all
  have e2: "extends ?P ?b ?s0"
    by (rule stays_extends, rule init_phase_stays) simp_all
  have e3: "extends ?P ?s0 ?s2"
    by (rule stays_extends, rule except_block_stays) simp
  have e: "extends ?P s ?s2" using e1 e2 e3 by (blast intro: extends_trans)
  have f: "extends (\<lambda>ev. ev \<noteq> CallStep \<and> ev \<noteq> CallPublish) ?s2 (snd (finally_block E h ?s2))"
    by (rule finally_block_extends) simp_all
  have k: "count_list (trace ?s2) CallStep = count_list (trace s) CallStep"
    "count_list (trace ?s2) CallPublish = count_list (trace s) CallPublish"
    "count_list (trace ?s2) CallCleanup = count_list (trace s) CallCleanup"
    using e by (auto dest: extends_count)
  have k': "count_list (trace (snd (finally_block E h ?s2))) CallStep = count_list (trace ?s2) CallStep"
    "count_list (trace (snd (finally_block E h ?s2))) CallPublish = count_list (trace ?s2) CallPublish"
    using f by (auto dest: extends_count)
  have nr: "fst (run n E h s) \<noteq> Running"
    unfolding r by (simp split: option.splits)
  have rs: "fst (run n E h s) = Raised x" if "checker_cleanup E c = Some x" for x
    using finally_block_reader_raises[OF c2(2,1) that, of h] r by simp
  from nr rs finally_block_cleanup_count[OF c2(2,1,3), of E h] k k' r show ?thesis by simp
qed

theorem init_raises_then_teardown_witness:
  "import_MPFramework (script_env None) = None \<and>
   MPFTaskChecker (script_env None) (inp (worker_w1 [])) (name (worker_w1 []))
     = Inr \<lparr>script = [], hdr = [], dat = None\<rparr> \<and>
   MPFResultPublisher (script_env None) (out (worker_w1 [])) (name (worker_w1 [])) = Inr () \<and>
   fst (init failing_init_hooks (shared_memory (worker_w1 []), MPFProcess.more (worker_w1 [])))
     = Some (Exn ''init failed'') \<and>
   fst (run 0 (script_env None) failing_init_hooks (worker_w1 [])) \<noteq> Running \<and>
   count_list (trace (snd (run 0 (script_env None) failing_init_hooks (worker_w1 [])))) CallStep
     = 0 \<and>
   count_list (trace (snd (run 0 (script_env None) failing_init_hooks (worker_w1 [])))) CallPublish
     = 0 \<and>
   count_list (trace (snd (run 0 (script_env None) failing_init_hooks (worker_w1 [])))) CallCleanup
     = 1 \<and>
   checker_cleanup (script_env (Some (Exn ''reader cleanup failed'')))
     \<lparr>script = [], hdr = [], dat = None\<rparr> = Some (Exn ''reader cleanup failed'') \<and>
   fst (run 0 (script_env (Some (Exn ''reader cleanup failed''))) failing_init_hooks
     (worker_w1 [])) = Raised (Exn ''reader cleanup failed'') \<and>
   count_list (trace (snd (run 0 (script_env (Some (Exn ''reader cleanup failed'')))
     failing_init_hooks (worker_w1 [])))) CallCleanup = 0"
proof -
  let ?E = "script_env None"
  let ?w = "worker_w1 []"
  have i: "import_MPFramework ?E = None" by (simp add: script_env_def)
  have c: "MPFTaskChecker ?E (inp ?w) (name ?w) = Inr \<lparr>script = [], hdr = [], dat = None\<rparr>"
    by (simp add: script_env_def worker_w1_def MPFProcess_new_def)
  have p: "MPFResultPublisher ?E (out ?w) (name ?w) = Inr ()"
    by (simp add: script_env_def)
  have f: "fst (init failing_init_hooks (shared_memory ?w, MPFProcess.more ?w))
     = Some (Exn ''init failed'')"
    by (simp add: failing_init_hooks_def)
  have k: "checker_cleanup ?E \<lparr>script = [], hdr = [], dat = None\<rparr> = None"
    by (simp add: script_env_def)
  have t: "trace ?w = []" by (simp add: worker_w1_def MPFProcess_new_def)
  let ?F = "script_env (Some (Exn ''reader cleanup failed''))"
  have i': "import_MPFramework ?F = None" by (simp add: script_env_def)
  have c': "MPFTaskChecker ?F (inp ?w) (name ?w) = Inr \<lparr>script = [], hdr = [], dat = None\<rparr>"
    by (simp add: script_env_def worker_w1_def MPFProcess_new_def)
  have p': "MPFResultPublisher ?F (out ?w) (name ?w) = Inr ()"
    by (simp add: script_env_def)
  have k': "checker_cleanup ?F \<lparr>script = [], hdr = [], dat = None\<rparr>
      = Some (Exn ''reader cleanup failed'')"
    by (simp add: script_env_def)
  from init_raises_then_teardown[OF i c p f, of 0] i c p f k t
  have 1: "fst (run 0 ?E failing_init_hooks ?w) \<noteq> Running \<and>
    count_list (trace (snd (run 0 ?E failing_init_hooks ?w))) CallStep = 0 \<and>
    count_list (trace (snd (run 0 ?E failing_init_hooks ?w))) CallPublish = 0 \<and>
    count_list (trace (snd (run 0 ?E failing_init_hooks ?w))) CallCleanup = 1"
    by simp
  from init_raises_then_teardown[OF i' c' p' f, of 0] k' t
  have 2: "fst (run 0 ?F failing_init_hooks ?w) = Raised (Exn ''reader cleanup failed'') \<and>
    count_list (trace (snd (run 0 ?F failing_init_hooks ?w))) CallCleanup = 0"
    by simp
  from i c p f k' 1 2 show ?thesis by simp
qed

text \<open>
  The claim C5 as the specification words it fails: here \<^verbatim>\<open>init\<close> raises, the reader's
  \<^verbatim>\<open>cleanup\<close> raises in the teardown, and \<^verbatim>\<open>cleanup\<close> has not been called when \<^verbatim>\<open>run\<close> ends.
\<close>

theorem init_raises_counterexample:
  "fst (init failing_init_hooks (shared_memory (worker_w1 []), MPFProcess.more (worker_w1 [])))
     = Some (Exn ''init failed'') \<and>
   fst (try_block 1 (script_env (Some (Exn ''reader cleanup failed''))) failing_init_hooks
       (worker_w1 [])) = Raise (Exn ''init failed'') \<and>
   fst (run 1 (script_env (Some (Exn ''reader cleanup failed''))) failing_init_hooks
       (worker_w1 [])) = Raised (Exn ''reader cleanup failed'') \<and>
   count_list (trace (snd (run 1 (script_env (Some (Exn ''reader cleanup failed'')))
       failing_init_hooks (worker_w1 [])))) CallCleanup = 0"
  by (simp add: run_def try_block_def lift_def startup_def seq_alt import_modules_def
    new_task_checker_def new_results_publisher_def get_logger_def log_call_def call_hook_alt
    script_env_def failing_init_hooks_def counting_hooks_def worker_w1_def MPFProcess_new_def
    emit_def finally_block_def release_task_checker_def release_results_publisher_def
    except_block_def finish_def)

subsection \<open>The order of the teardown\<close>

text \<open>
  C6, as the code has it. Let the teardown start with the logger assigned and neither
  the reader nor the publisher deleted, as on every exit from the loop. Its actions are,
  in this order: if the reader is not \<^verbatim>\<open>None\<close>, the call of the reader's \<^verbatim>\<open>cleanup\<close> and, if
  that call returns, the deletion of the reader; then, unless the reader's \<^verbatim>\<open>cleanup\<close>
  raised, the deletion of the publisher if it is not \<^verbatim>\<open>None\<close>, and the call of the
  worker's \<^verbatim>\<open>cleanup\<close>. If the reader's \<^verbatim>\<open>cleanup\<close> raises, the teardown stops there.
\<close>

theorem teardown_order:
  assumes "MPFLog s = Some lg" and "task_checker s \<noteq> Deleted"
    and "results_publisher s \<noteq> Deleted"
  shows "\<exists>evs. trace (snd (finally_block E h s)) = trace s @ evs \<and>
    filter teardown_action evs =
      (case task_checker s of
         Obj c \<Rightarrow>
           (case checker_cleanup E c of
              Some e \<Rightarrow> [CheckerCleanup]
            | None \<Rightarrow> [CheckerCleanup, DelChecker] @
                (case results_publisher s of Obj p \<Rightarrow> [DelPublisher] | _ \<Rightarrow> []) @
                [CallCleanup])
       | _ \<Rightarrow> (case results_publisher s of Obj p \<Rightarrow> [DelPublisher] | _ \<Rightarrow> []) @ [CallCleanup])"
proof -
  from finally_block_actions[OF assms(1), of E h]
  obtain evs where t: "trace (snd (finally_block E h s)) = trace s @ evs"
    and f: "filter teardown_action evs =
      (case task_checker s of
         Deleted \<Rightarrow> []
       | PyNone \<Rightarrow>
           (case results_publisher s of
              Deleted \<Rightarrow> [] | PyNone \<Rightarrow> [CallCleanup] | Obj p \<Rightarrow> [DelPublisher, CallCleanup])
       | Obj c \<Rightarrow>
           (case checker_cleanup E c of
              Some e \<Rightarrow> [CheckerCleanup]
            | None \<Rightarrow> [CheckerCleanup, DelChecker] @
                (case results_publisher s of
                   Deleted \<Rightarrow> [] | PyNone \<Rightarrow> [CallCleanup]
                 | Obj p \<Rightarrow> [DelPublisher, CallCleanup])))"
    by blast
  show ?thesis
    by (rule exI[of _ evs], rule conjI[OF t], unfold f)
       (use assms(2,3) in \<open>simp split: attr.splits option.splits\<close>)
qed

theorem teardown_order_witness:
  "MPFLog (built \<lparr>script = [], hdr = [], dat = None\<rparr> () (worker_w1 []))
     = Some (Logger ''MPFLogger'') \<and>
   task_checker (built \<lparr>script = [], hdr = [], dat = None\<rparr> () (worker_w1 [])) \<noteq> Deleted \<and>
   results_publisher (built \<lparr>script = [], hdr = [], dat = None\<rparr> () (worker_w1 [])) \<noteq> Deleted \<and>
   (\<exists>evs. trace (snd (finally_block (script_env None) (counting_hooks 0)
              (built \<lparr>script = [], hdr = [], dat = None\<rparr> () (worker_w1 [])))) =
            trace (built \<lparr>script = [], hdr = [], dat = None\<rparr> () (worker_w1 [])) @ evs \<and>
          filter teardown_action evs = [CheckerCleanup, DelChecker, DelPublisher, CallCleanup])"
proof -
  let ?s = "built \<lparr>script = [], hdr = [], dat = None\<rparr> () (worker_w1 [])"
  have a: "MPFLog ?s = Some (Logger ''MPFLogger'')" by simp
  have b: "task_checker ?s \<noteq> Deleted" by simp
  have c: "results_publisher ?s \<noteq> Deleted" by simp
  have k: "checker_cleanup (script_env None) \<lparr>script = [], hdr = [], dat = None\<rparr> = None"
    by (simp add: script_env_def)
  from teardown_order[OF a b c, of "script_env None" "counting_hooks 0"] k a b c
  show ?thesis by simp
qed

text \<open>
  The claim C6 as the specification words it fails: here the loop is left because
  \<^verbatim>\<open>step\<close> raised, the reader's \<^verbatim>\<open>cleanup\<close> raises in the teardown, and of the
  teardown's actions only the call of the reader's \<^verbatim>\<open>cleanup\<close> happens: the reader and
  the publisher are not deleted and the worker's \<^verbatim>\<open>cleanup\<close> is not called.
\<close>

theorem teardown_order_counterexample:
  "fst (try_block 1 (script_env (Some (Exn ''reader cleanup failed''))) (counting_hooks 1)
       (worker_w1 [])) = Raise (Exn ''step failed'') \<and>
   filter teardown_action (trace (snd (run 1 (script_env (Some (Exn ''reader cleanup failed'')))
       (counting_hooks 1) (worker_w1 [])))) = [CheckerCleanup] \<and>
   task_checker (snd (run 1 (script_env (Some (Exn ''reader cleanup failed'')))
       (counting_hooks 1) (worker_w1 []))) \<noteq> Deleted \<and>
   results_publisher (snd (run 1 (script_env (Some (Exn ''reader cleanup failed'')))
       (counting_hooks 1) (worker_w1 []))) = Obj ()"
  by (simp add: run_def try_block_def lift_def startup_def seq_alt import_modules_def
    new_task_checker_def new_results_publisher_def get_logger_def log_call_def call_hook_alt
    iteration_def step_publish_wait_def wait_def poll_script_def script_env_def
    counting_hooks_def worker_w1_def MPFProcess_new_def emit_def finally_block_def
    release_task_checker_def release_results_publisher_def except_block_def finish_def)

subsection \<open>The shared memory\<close>

lemma act_alikeI:
  assumes "\<And>s m. R (shared_memory s) m \<Longrightarrow>
     fst (a (s\<lparr>shared_memory := m\<rparr>)) = fst (a s) \<and>
     (\<exists>m'. snd (a (s\<lparr>shared_memory := m\<rparr>)) = (snd (a s))\<lparr>shared_memory := m'\<rparr> \<and>
           R (shared_memory (snd (a s))) m')"
  shows "act_alike R a"
  using assms unfolding act_alike_def by blast

lemma act_alikeD:
  assumes "act_alike R a" and "R (shared_memory s) m"
  obtains m' where "fst (a (s\<lparr>shared_memory := m\<rparr>)) = fst (a s)"
    and "snd (a (s\<lparr>shared_memory := m\<rparr>)) = (snd (a s))\<lparr>shared_memory := m'\<rparr>"
    and "R (shared_memory (snd (a s))) m'"
  using assms unfolding act_alike_def by blast

text \<open>An action of the core that does not touch the shared memory.\<close>

lemma core_act_alike:
  assumes "\<And>s m. a (s\<lparr>shared_memory := m\<rparr>) = (fst (a s), (snd (a s))\<lparr>shared_memory := m\<rparr>)"
    and "\<And>s. shared_memory (snd (a s)) = shared_memory s"
  shows "act_alike R a"
proof (rule act_alikeI, goal_cases)
  case (1 s m)
  then show ?case
    using assms(1)[where s = s and m = m] assms(2)[where s = s] by auto
qed

lemma log_call_alike: "act_alike R (log_call lv msg)"
  by (rule core_act_alike) (simp_all add: log_call_def emit_def split: option.splits)

lemma wait_alike: "act_alike R (wait E)"
  by (rule core_act_alike) (simp_all add: wait_def emit_def split: option.splits)

lemma import_modules_alike: "act_alike R (import_modules E)"
  by (rule core_act_alike) (simp_all add: import_modules_def)

lemma new_task_checker_alike: "act_alike R (new_task_checker E)"
  by (rule core_act_alike) (simp_all add: new_task_checker_def emit_def split: sum.splits)

lemma new_results_publisher_alike: "act_alike R (new_results_publisher E)"
  by (rule core_act_alike) (simp_all add: new_results_publisher_def emit_def split: sum.splits)

lemma get_logger_alike: "act_alike R get_logger"
  by (rule core_act_alike) (simp_all add: get_logger_def)

lemma release_task_checker_alike: "act_alike R (release_task_checker E)"
  by (rule core_act_alike)
     (simp_all add: release_task_checker_def seq_alt log_call_def emit_def
        split: attr.splits option.splits)

lemma release_results_publisher_alike: "act_alike R release_results_publisher"
  by (rule core_act_alike)
     (simp_all add: release_results_publisher_def emit_def split: attr.splits)

lemma call_hook_alike:
  assumes "hook_alike R f"
  shows "act_alike R (call_hook ev f)"
proof (rule act_alikeI, goal_cases)
  case (1 s m)
  note r = 1
  let ?u = "MPFProcess.more s"
  from assms r have h1: "fst (f (shared_memory s, ?u)) = fst (f (m, ?u))"
    and h2: "snd (snd (f (shared_memory s, ?u))) = snd (snd (f (m, ?u)))"
    and h3: "R (fst (snd (f (shared_memory s, ?u)))) (fst (snd (f (m, ?u))))"
    unfolding hook_alike_def by blast+
  show ?case
    using h1 h2 h3
    by (intro conjI exI[of _ "fst (snd (f (m, ?u)))"]) (simp_all add: call_hook_alt emit_def)
qed

lemma seq_alike:
  assumes a: "act_alike R a" and b: "act_alike R b"
  shows "act_alike R (seq a b)"
proof (rule act_alikeI, goal_cases)
  case (1 s m)
  from act_alikeD[OF a 1] obtain m1 where
    f: "fst (a (s\<lparr>shared_memory := m\<rparr>)) = fst (a s)"
    and s1: "snd (a (s\<lparr>shared_memory := m\<rparr>)) = (snd (a s))\<lparr>shared_memory := m1\<rparr>"
    and r1: "R (shared_memory (snd (a s))) m1" by blast
  show ?case
  proof (cases "fst (a s)")
    case None
    from act_alikeD[OF b r1] obtain m2 where
      "fst (b ((snd (a s))\<lparr>shared_memory := m1\<rparr>)) = fst (b (snd (a s)))"
      "snd (b ((snd (a s))\<lparr>shared_memory := m1\<rparr>)) = (snd (b (snd (a s))))\<lparr>shared_memory := m2\<rparr>"
      "R (shared_memory (snd (b (snd (a s))))) m2" by blast
    with None f s1 show ?thesis by (auto simp: seq_alt)
  next
    case (Some e)
    with f s1 r1 show ?thesis by (auto simp: seq_alt)
  qed
qed

lemma lift_alt:
  "lift a k s = (case fst (a s) of None \<Rightarrow> k (snd (a s)) | Some e \<Rightarrow> (Raise e, snd (a s)))"
  by (cases "a s") (simp add: lift_def split: option.splits)

lemma lift_alike:
  assumes a: "act_alike R a" and k: "act_alike R k"
  shows "act_alike R (lift a k)"
proof (rule act_alikeI, goal_cases)
  case (1 s m)
  from act_alikeD[OF a 1] obtain m1 where
    f: "fst (a (s\<lparr>shared_memory := m\<rparr>)) = fst (a s)"
    and s1: "snd (a (s\<lparr>shared_memory := m\<rparr>)) = (snd (a s))\<lparr>shared_memory := m1\<rparr>"
    and r1: "R (shared_memory (snd (a s))) m1" by blast
  show ?case
  proof (cases "fst (a s)")
    case None
    from act_alikeD[OF k r1] obtain m2 where
      "fst (k ((snd (a s))\<lparr>shared_memory := m1\<rparr>)) = fst (k (snd (a s)))"
      "snd (k ((snd (a s))\<lparr>shared_memory := m1\<rparr>)) = (snd (k (snd (a s))))\<lparr>shared_memory := m2\<rparr>"
      "R (shared_memory (snd (k (snd (a s))))) m2" by blast
    with None f s1 show ?thesis by (auto simp: lift_alt)
  next
    case (Some e)
    with f s1 r1 show ?thesis by (auto simp: lift_alt)
  qed
qed

lemma return_alike: "act_alike R (\<lambda>s. (x, s))"
  by (rule core_act_alike) simp_all

lemma step_publish_wait_alike:
  assumes "hooks_alike R h"
  shows "act_alike R (step_publish_wait E h)"
  unfolding step_publish_wait_def using assms
  by (intro lift_alike call_hook_alike wait_alike return_alike) (simp_all add: hooks_alike_def)

lemma act_alike_apply:
  assumes "act_alike R k" and "R (shared_memory s1) m"
  shows "fst (k (s1\<lparr>shared_memory := m\<rparr>)) = fst (k s1) \<and>
     (\<exists>m'. snd (k (s1\<lparr>shared_memory := m\<rparr>)) = (snd (k s1))\<lparr>shared_memory := m'\<rparr> \<and>
           R (shared_memory (snd (k s1))) m')"
  using assms unfolding act_alike_def by blast

lemma iteration_alike:
  assumes h: "hooks_alike R h"
  shows "act_alike R (iteration E h)"
proof (rule act_alikeI, goal_cases)
  case (1 s m)
  let ?t = "s\<lparr>shared_memory := m\<rparr>"
  let ?p = "\<lambda>c1. emit Poll (s\<lparr>task_checker := Obj c1\<rparr>)"
  have poll: "emit Poll (?t\<lparr>task_checker := Obj c1\<rparr>) = (?p c1)\<lparr>shared_memory := m\<rparr>" for c1
    by (simp add: emit_def)
  have r1: "R (shared_memory (?p c1)) m" for c1
    using 1 by simp
  have spw: "act_alike R (step_publish_wait E h)"
    using h by (rule step_publish_wait_alike)
  show ?case
  proof (cases rule: iteration_cases[where s = s and E = E])
    case no_reader
    then have "\<forall>c. task_checker ?t \<noteq> Obj c" by simp
    then have e1: "iteration E h ?t = (Raise AttributeError, ?t)"
      by (rule iteration_no_reader)
    have e2: "iteration E h s = (Raise AttributeError, s)"
      using no_reader by (rule iteration_no_reader)
    show ?thesis unfolding e1 e2 using 1 by (intro conjI exI[of _ m]) simp_all
  next
    case (poll_raises c e c1)
    have "task_checker ?t = Obj c" using poll_raises(1) by simp
    from iteration_poll_raises[OF this poll_raises(2), of h]
    have e1: "iteration E h ?t = (Raise e, (?p c1)\<lparr>shared_memory := m\<rparr>)"
      by (simp only: poll)
    have e2: "iteration E h s = (Raise e, ?p c1)"
      using poll_raises by (rule iteration_poll_raises)
    show ?thesis unfolding e1 e2 using 1 by (intro conjI exI[of _ m]) simp_all
  next
    case (nothing_new c c1)
    have "task_checker ?t = Obj c" using nothing_new(1) by simp
    from iteration_nothing_new[OF this nothing_new(2), of h]
    have e1: "iteration E h ?t = step_publish_wait E h ((?p c1)\<lparr>shared_memory := m\<rparr>)"
      by (simp only: poll)
    have e2: "iteration E h s = step_publish_wait E h (?p c1)"
      using nothing_new by (rule iteration_nothing_new)
    show ?thesis unfolding e1 e2 by (rule act_alike_apply[OF spw r1])
  next
    case (stop c c1)
    let ?k = "lift (log_call DEBUG msg_stop) (\<lambda>s2. (Break, s2))"
    have k: "act_alike R ?k"
      by (intro lift_alike log_call_alike return_alike)
    have "task_checker ?t = Obj c" using stop(1) by simp
    from iteration_stop[OF this stop(2,3), of h]
    have e1: "iteration E h ?t = ?k ((?p c1)\<lparr>shared_memory := m\<rparr>)"
      by (simp only: poll)
    have e2: "iteration E h s = ?k (?p c1)"
      using stop by (rule iteration_stop)
    show ?thesis unfolding e1 e2 by (rule act_alike_apply[OF k r1])
  next
    case (message c c1)
    let ?k = "lift (call_hook (CallUpdate (header E c1) (latest_data E c1))
             (update h (header E c1) (latest_data E c1))) (step_publish_wait E h)"
    have k: "act_alike R ?k"
      using h by (intro lift_alike call_hook_alike spw) (simp add: hooks_alike_def)
    have "task_checker ?t = Obj c" using message(1) by simp
    from iteration_message[OF this message(2,3), of h]
    have e1: "iteration E h ?t = ?k ((?p c1)\<lparr>shared_memory := m\<rparr>)"
      by (simp only: poll)
    have e2: "iteration E h s = ?k (?p c1)"
      using message by (rule iteration_message)
    show ?thesis unfolding e1 e2 by (rule act_alike_apply[OF k r1])
  qed
qed

lemma loop_alike:
  assumes h: "hooks_alike R h"
  shows "act_alike R (loop n E h)"
proof (induction n)
  case 0
  have "loop 0 E h = (\<lambda>s. (Continue, s))" by (rule ext) simp
  then show ?case by (simp only: return_alike)
next
  case (Suc n)
  show ?case
  proof (rule act_alikeI, goal_cases)
    case (1 s m)
    from act_alikeD[OF iteration_alike[OF h, of E] 1] obtain m1 where
      f: "fst (iteration E h (s\<lparr>shared_memory := m\<rparr>)) = fst (iteration E h s)"
      and s1: "snd (iteration E h (s\<lparr>shared_memory := m\<rparr>)) =
          (snd (iteration E h s))\<lparr>shared_memory := m1\<rparr>"
      and r1: "R (shared_memory (snd (iteration E h s))) m1" by blast
    have l: "loop (Suc n) E h x =
        (case fst (iteration E h x) of Continue \<Rightarrow> loop n E h (snd (iteration E h x))
         | Break \<Rightarrow> (Break, snd (iteration E h x))
         | Raise e \<Rightarrow> (Raise e, snd (iteration E h x)))" for x
      by (cases "iteration E h x") (simp split: ctl.splits)
    let ?s1 = "snd (iteration E h s)"
    show ?case
    proof (cases "fst (iteration E h s)")
      case Continue
      have e1: "loop (Suc n) E h (s\<lparr>shared_memory := m\<rparr>) = loop n E h (?s1\<lparr>shared_memory := m1\<rparr>)"
        using Continue f s1 by (subst l) simp
      have e2: "loop (Suc n) E h s = loop n E h ?s1"
        using Continue by (subst l) simp
      show ?thesis unfolding e1 e2 by (rule act_alike_apply[OF Suc.IH r1])
    next
      case Break
      have e1: "loop (Suc n) E h (s\<lparr>shared_memory := m\<rparr>) = (Break, ?s1\<lparr>shared_memory := m1\<rparr>)"
        using Break f s1 by (subst l) simp
      have e2: "loop (Suc n) E h s = (Break, ?s1)"
        using Break by (subst l) simp
      show ?thesis unfolding e1 e2 using r1 by (intro conjI exI[of _ m1]) simp_all
    next
      case (Raise e)
      have e1: "loop (Suc n) E h (s\<lparr>shared_memory := m\<rparr>) = (Raise e, ?s1\<lparr>shared_memory := m1\<rparr>)"
        using Raise f s1 by (subst l) simp
      have e2: "loop (Suc n) E h s = (Raise e, ?s1)"
        using Raise by (subst l) simp
      show ?thesis unfolding e1 e2 using r1 by (intro conjI exI[of _ m1]) simp_all
    qed
  qed
qed

lemma startup_alike:
  assumes "hooks_alike R h"
  shows "act_alike R (startup E h)"
  unfolding startup_def using assms
  by (intro seq_alike import_modules_alike new_task_checker_alike new_results_publisher_alike
      get_logger_alike log_call_alike call_hook_alike) (simp add: hooks_alike_def)

lemma try_block_alike:
  assumes "hooks_alike R h"
  shows "act_alike R (try_block n E h)"
  unfolding try_block_def using assms
  by (intro lift_alike startup_alike loop_alike)

lemma except_block_alike: "act_alike R (except_block E e)"
  by (rule core_act_alike) (simp_all add: except_block_def log_call_def emit_def split: option.splits)

lemma finally_block_alike:
  assumes "hooks_alike R h"
  shows "act_alike R (finally_block E h)"
  unfolding finally_block_def using assms
  by (intro seq_alike release_task_checker_alike release_results_publisher_alike
      log_call_alike call_hook_alike) (simp add: hooks_alike_def)

lemma finish_alike:
  assumes "act_alike R a"
  shows "act_alike R (\<lambda>s. finish (a s))"
proof (rule act_alikeI, goal_cases)
  case (1 s m)
  from act_alikeD[OF assms 1] obtain m' where
    "fst (a (s\<lparr>shared_memory := m\<rparr>)) = fst (a s)"
    "snd (a (s\<lparr>shared_memory := m\<rparr>)) = (snd (a s))\<lparr>shared_memory := m'\<rparr>"
    "R (shared_memory (snd (a s))) m'" by blast
  then show ?case by (intro conjI exI[of _ m']) simp_all
qed

lemma run_alt:
  "run n E h s =
     (case fst (try_block n E h s) of
        Continue \<Rightarrow> (Running, snd (try_block n E h s))
      | Break \<Rightarrow> finish (finally_block E h (snd (try_block n E h s)))
      | Raise e \<Rightarrow>
          finish (finally_block E h (snd (except_block E e (snd (try_block n E h s))))))"
  by (cases "try_block n E h s") (simp add: run_def split: ctl.splits)

lemma run_alike:
  assumes h: "hooks_alike R h"
  shows "act_alike R (run n E h)"
proof (rule act_alikeI, goal_cases)
  case (1 s m)
  from act_alikeD[OF try_block_alike[OF h, of n E] 1] obtain m1 where
    f: "fst (try_block n E h (s\<lparr>shared_memory := m\<rparr>)) = fst (try_block n E h s)"
    and s1: "snd (try_block n E h (s\<lparr>shared_memory := m\<rparr>)) =
        (snd (try_block n E h s))\<lparr>shared_memory := m1\<rparr>"
    and r1: "R (shared_memory (snd (try_block n E h s))) m1" by blast
  let ?s1 = "snd (try_block n E h s)"
  note fin = finish_alike[OF finally_block_alike[OF h, of E]]
  show ?case
  proof (cases "fst (try_block n E h s)")
    case Continue
    have e1: "run n E h (s\<lparr>shared_memory := m\<rparr>) = (Running, ?s1\<lparr>shared_memory := m1\<rparr>)"
      using Continue f s1 by (simp add: run_alt)
    have e2: "run n E h s = (Running, ?s1)"
      using Continue by (simp add: run_alt)
    show ?thesis unfolding e1 e2 using r1 by (intro conjI exI[of _ m1]) simp_all
  next
    case Break
    have e1: "run n E h (s\<lparr>shared_memory := m\<rparr>) =
        finish (finally_block E h (?s1\<lparr>shared_memory := m1\<rparr>))"
      using Break f s1 by (simp add: run_alt)
    have e2: "run n E h s = finish (finally_block E h ?s1)"
      using Break by (simp add: run_alt)
    show ?thesis unfolding e1 e2 by (rule act_alike_apply[OF fin r1])
  next
    case (Raise e)
    from act_alikeD[OF except_block_alike[of R E e] r1] obtain m2 where
      s2: "snd (except_block E e (?s1\<lparr>shared_memory := m1\<rparr>)) =
          (snd (except_block E e ?s1))\<lparr>shared_memory := m2\<rparr>"
      and r2: "R (shared_memory (snd (except_block E e ?s1))) m2" by blast
    have e1: "run n E h (s\<lparr>shared_memory := m\<rparr>) =
        finish (finally_block E h ((snd (except_block E e ?s1))\<lparr>shared_memory := m2\<rparr>))"
      using Raise f s1 s2 by (simp add: run_alt)
    have e2: "run n E h s = finish (finally_block E h (snd (except_block E e ?s1)))"
      using Raise by (simp add: run_alt)
    show ?thesis unfolding e1 e2 by (rule act_alike_apply[OF fin r2])
  qed
qed

lemma alike_run:
  assumes "hooks_alike R h" and "alike R s t"
  shows "fst (run n E h t) = fst (run n E h s) \<and> alike R (snd (run n E h s)) (snd (run n E h t))"
proof -
  from assms(2) have r: "R (shared_memory s) (shared_memory t)"
    and t: "t = s\<lparr>shared_memory := shared_memory t\<rparr>" by (simp_all add: alike_def)
  from act_alikeD[OF run_alike[OF assms(1), of n E] r] obtain m' where
    "fst (run n E h (s\<lparr>shared_memory := shared_memory t\<rparr>)) = fst (run n E h s)"
    "snd (run n E h (s\<lparr>shared_memory := shared_memory t\<rparr>)) =
       (snd (run n E h s))\<lparr>shared_memory := m'\<rparr>"
    "R (shared_memory (snd (run n E h s))) m'" by blast
  then show ?thesis using t by (simp add: alike_def)
qed

lemma hooks_keep_alike:
  assumes "hooks_keep P h"
  shows "hooks_alike (\<lambda>a b. a = b \<and> P a) h"
  using assms unfolding hooks_keep_def hooks_alike_def hook_alike_def by blast

lemma replay_simps [simp]:
  "replay h [] w = w"
  "replay h (ev # evs) w = replay h evs (hook_effect h ev w)"
  "replay h (evs @ evs') w = replay h evs' (replay h evs w)"
  by (simp_all add: replay_def)

lemma replays_refl [simp]: "replays h s s"
  by (simp add: replays_def)

lemma replays_trans: "replays h x y \<Longrightarrow> replays h y z \<Longrightarrow> replays h x z"
proof -
  assume "replays h x y" "replays h y z"
  then obtain e1 e2 where 1: "trace y = trace x @ e1"
    "(shared_memory y, MPFProcess.more y) = replay h e1 (shared_memory x, MPFProcess.more x)"
    and 2: "trace z = trace y @ e2"
    "(shared_memory z, MPFProcess.more z) = replay h e2 (shared_memory y, MPFProcess.more y)"
    unfolding replays_def by blast
  have "trace z = trace x @ (e1 @ e2)" using 1(1) 2(1) by simp
  moreover have "(shared_memory z, MPFProcess.more z) =
      replay h (e1 @ e2) (shared_memory x, MPFProcess.more x)"
    using 1(2) 2(2) by simp
  ultimately show ?thesis unfolding replays_def by blast
qed

text \<open>A step of the core: it may append core events and leaves the worker's own alone.\<close>

lemma core_replays:
  assumes "trace s' = trace s @ evs" "\<And>ev w. ev \<in> set evs \<Longrightarrow> hook_effect h ev w = w"
    "shared_memory s' = shared_memory s" "MPFProcess.more s' = MPFProcess.more s"
  shows "replays h s s'"
proof -
  have "replay h evs w = w" for w
    using assms(2) by (induction evs arbitrary: w) simp_all
  with assms(1,3,4) show ?thesis unfolding replays_def by auto
qed

lemma log_call_replays: "replays h s (snd (log_call lv msg s))"
proof (cases "MPFLog s")
  case None
  then show ?thesis by (simp add: log_call_def)
next
  case (Some lg)
  show ?thesis
    by (rule core_replays[where evs = "[Log lv (msg (name s))]"]) (simp_all add: log_call_Some[OF Some])
qed

lemma wait_replays: "replays h s (snd (wait E s))"
proof (cases "loop_wait_period s")
  case None
  then show ?thesis by (simp add: wait_def)
next
  case (Some p)
  show ?thesis
    by (rule core_replays[where evs = "[Sleep p]"]) (simp_all add: wait_def Some)
qed

lemma poll_replays: "replays h s (emit Poll (s\<lparr>task_checker := Obj c1\<rparr>))"
  by (rule core_replays[where evs = "[Poll]"]) simp_all

lemma import_modules_replays: "replays h s (snd (import_modules E s))"
  by (simp add: import_modules_def)

lemma new_task_checker_replays: "replays h s (snd (new_task_checker E s))"
  by (rule core_replays[where evs = "[NewTaskChecker]"])
     (simp_all add: new_task_checker_def split: sum.splits)

lemma new_results_publisher_replays: "replays h s (snd (new_results_publisher E s))"
  by (rule core_replays[where evs = "[NewResultPublisher]"])
     (simp_all add: new_results_publisher_def split: sum.splits)

lemma get_logger_replays: "replays h s (snd (get_logger s))"
  by (rule core_replays[where evs = "[]"]) (simp_all add: get_logger_def)

lemma except_block_replays: "replays h s (snd (except_block E e s))"
  unfolding except_block_def by (rule log_call_replays)

lemma release_results_publisher_replays: "replays h s (snd (release_results_publisher s))"
proof (cases "results_publisher s")
  case (Obj p)
  show ?thesis
    by (rule core_replays[where evs = "[DelPublisher]"])
       (simp_all add: release_results_publisher_def Obj)
qed (simp_all add: release_results_publisher_def)

lemma release_task_checker_replays: "replays h s (snd (release_task_checker E s))"
proof (cases "task_checker s")
  case (Obj c)
  have "replays h s
    (snd (seq (log_call DEBUG msg_cleaning_checker)
            (seq (\<lambda>s1. (checker_cleanup E c, emit CheckerCleanup s1))
               (seq (\<lambda>s2. (None, emit DelChecker (s2\<lparr>task_checker := Deleted\<rparr>)))
                  (log_call DEBUG msg_cleaned_checker))) s))"
  proof (intro seq_rel[where R = "replays h"] log_call_replays)
    show "replays h s (snd (checker_cleanup E c, emit CheckerCleanup s))" for s
      by (rule core_replays[where evs = "[CheckerCleanup]"]) simp_all
    show "replays h s (snd (None, emit DelChecker (s\<lparr>task_checker := Deleted\<rparr>)))" for s
      by (rule core_replays[where evs = "[DelChecker]"]) simp_all
  qed (auto intro: replays_trans)
  then show ?thesis by (simp add: release_task_checker_def Obj)
qed (simp_all add: release_task_checker_def)

text \<open>The call of a hook: the event is the hook's own.\<close>

lemma call_hook_replays:
  assumes "\<And>w. hook_effect h ev w = snd (f w)"
  shows "replays h s (snd (call_hook ev f s))"
  unfolding replays_def
  by (rule exI[of _ "[ev]"]) (simp add: call_hook_alt assms)

lemma step_publish_wait_replays: "replays h s (snd (step_publish_wait E h s))"
  unfolding step_publish_wait_def
  by (intro lift_rel[where R = "replays h"] call_hook_replays wait_replays)
     (auto intro: replays_trans)

lemma iteration_replays: "replays h s (snd (iteration E h s))"
proof (cases rule: iteration_cases[where s = s and E = E])
  case no_reader
  then show ?thesis by (simp add: iteration_no_reader)
next
  case (poll_raises c e c1)
  then show ?thesis by (simp add: iteration_poll_raises poll_replays)
next
  case (nothing_new c c1)
  have "replays h (emit Poll (s\<lparr>task_checker := Obj c1\<rparr>))
          (snd (step_publish_wait E h (emit Poll (s\<lparr>task_checker := Obj c1\<rparr>))))"
    by (rule step_publish_wait_replays)
  from replays_trans[OF poll_replays this] nothing_new
  show ?thesis by (simp add: iteration_nothing_new)
next
  case (stop c c1)
  have "replays h (emit Poll (s\<lparr>task_checker := Obj c1\<rparr>))
          (snd (lift (log_call DEBUG msg_stop) (\<lambda>s2. (Break, s2))
                 (emit Poll (s\<lparr>task_checker := Obj c1\<rparr>))))"
    by (intro lift_rel[where R = "replays h"] log_call_replays) (auto intro: replays_trans)
  from replays_trans[OF poll_replays this] stop show ?thesis
    by (simp add: iteration_stop)
next
  case (message c c1)
  have "replays h (emit Poll (s\<lparr>task_checker := Obj c1\<rparr>))
          (snd (lift (call_hook (CallUpdate (header E c1) (latest_data E c1))
                        (update h (header E c1) (latest_data E c1)))
                  (step_publish_wait E h) (emit Poll (s\<lparr>task_checker := Obj c1\<rparr>))))"
    by (intro lift_rel[where R = "replays h"] call_hook_replays step_publish_wait_replays)
       (auto intro: replays_trans)
  from replays_trans[OF poll_replays this] message show ?thesis
    by (simp add: iteration_message)
qed

lemma loop_replays: "replays h s (snd (loop n E h s))"
proof (induction n arbitrary: s)
  case 0
  show ?case by simp
next
  case (Suc n)
  obtain r s1 where i: "iteration E h s = (r, s1)" by (cases "iteration E h s")
  have 1: "replays h s s1" using iteration_replays[of h s E] i by simp
  show ?case
  proof (cases r)
    case Continue
    with i have "loop (Suc n) E h s = loop n E h s1" by simp
    with replays_trans[OF 1 Suc.IH[of s1]] show ?thesis by simp
  qed (use i 1 in simp_all)
qed

lemma startup_replays: "replays h s (snd (startup E h s))"
  unfolding startup_def
  by (intro seq_rel[where R = "replays h"] import_modules_replays new_task_checker_replays
      new_results_publisher_replays get_logger_replays log_call_replays call_hook_replays)
     (auto intro: replays_trans)

lemma try_block_replays: "replays h s (snd (try_block n E h s))"
  unfolding try_block_def
  by (intro lift_rel[where R = "replays h"] startup_replays loop_replays)
     (auto intro: replays_trans)

lemma finally_block_replays: "replays h s (snd (finally_block E h s))"
  unfolding finally_block_def
  by (intro seq_rel[where R = "replays h"] release_task_checker_replays
      release_results_publisher_replays log_call_replays call_hook_replays)
     (auto intro: replays_trans)

lemma run_replays: "replays h s (snd (run n E h s))"
proof (cases rule: run_cases[where E = E and h = h and s = s and n = n])
  case (running s1)
  with try_block_replays[of h s n E] show ?thesis by simp
next
  case (stopped s1)
  with try_block_replays[of h s n E] finally_block_replays[of h s1 E] show ?thesis
    by (auto intro: replays_trans)
next
  case (crashed e s1)
  with try_block_replays[of h s n E] except_block_replays[of h s1 E e]
    finally_block_replays[of h "snd (except_block E e s1)" E]
  show ?thesis by (auto intro: replays_trans)
qed

text \<open>
  C9. \<^verbatim>\<open>set_shared_memory(memory)\<close> stores \<open>memory\<close> in the field \<^verbatim>\<open>shared_memory\<close> and leaves
  every other field as it is. \<^verbatim>\<open>run\<close> does not write the field: after \<^verbatim>\<open>run\<close>, however
  far it got, the shared memory (and the subclass's attributes) is what the hooks that
  \<^verbatim>\<open>run\<close> called, run alone in the order of their calls on what was there before, leave
  there; in particular a property of the shared memory that every hook keeps holds after
  \<^verbatim>\<open>run\<close> if it held before. \<^verbatim>\<open>run\<close> does not read the field: on two objects that differ
  only in shared memories the hooks cannot tell apart, \<^verbatim>\<open>run\<close> ends the same way and
  leaves objects that again differ only in such shared memories.
\<close>

theorem shared_memory_only_for_hooks:
  "shared_memory (set_shared_memory memory s) = memory \<and>
   out (set_shared_memory memory s) = out s \<and>
   inp (set_shared_memory memory s) = inp s \<and>
   loop_wait_period (set_shared_memory memory s) = loop_wait_period s \<and>
   name (set_shared_memory memory s) = name s \<and>
   task_checker (set_shared_memory memory s) = task_checker s \<and>
   results_publisher (set_shared_memory memory s) = results_publisher s \<and>
   MPFLog (set_shared_memory memory s) = MPFLog s \<and>
   trace (set_shared_memory memory s) = trace s \<and>
   MPFProcess.more (set_shared_memory memory s) = MPFProcess.more s \<and>
   (\<exists>evs. trace (snd (run n E h s)) = trace s @ evs \<and>
      (shared_memory (snd (run n E h s)), MPFProcess.more (snd (run n E h s))) =
        replay h evs (shared_memory s, MPFProcess.more s)) \<and>
   (hooks_keep P h \<and> P (shared_memory s) \<longrightarrow> P (shared_memory (snd (run n E h s)))) \<and>
   (hooks_alike R h \<and> alike R s t \<longrightarrow>
      fst (run n E h t) = fst (run n E h s) \<and>
      alike R (snd (run n E h s)) (snd (run n E h t)))"
proof -
  have p: "\<exists>evs. trace (snd (run n E h s)) = trace s @ evs \<and>
      (shared_memory (snd (run n E h s)), MPFProcess.more (snd (run n E h s))) =
        replay h evs (shared_memory s, MPFProcess.more s)"
    using run_replays[of h s n E] by (simp add: replays_def)
  have w: "P (shared_memory (snd (run n E h s)))" if "hooks_keep P h" "P (shared_memory s)"
  proof -
    have "alike (\<lambda>a b. a = b \<and> P a) s s" using that(2) by (simp add: alike_def)
    from alike_run[OF hooks_keep_alike[OF that(1)] this, of n E]
    show ?thesis by (simp add: alike_def)
  qed
  have r: "fst (run n E h t) = fst (run n E h s) \<and>
      alike R (snd (run n E h s)) (snd (run n E h t))" if "hooks_alike R h" "alike R s t"
    using that by (rule alike_run)
  from p w r show ?thesis by (simp add: set_shared_memory_def)
qed

theorem shared_memory_only_for_hooks_witness:
  "shared_memory (snd (run 2 (script_env None) (counting_hooks 0)
      (worker_w1 [Message ''DO_X'' (Some 42), Message ''STOP PROCESS'' None]))) = Some 42 \<and>
   hooks_keep (\<lambda>m. \<exists>i. m = Some i \<and> 0 \<le> i) tally_hooks \<and>
   shared_memory (set_shared_memory (Some 0) (worker_w1 [NoMessage])) = Some 0 \<and>
   (\<exists>i. shared_memory (snd (run 2 (script_env None) tally_hooks
      (set_shared_memory (Some 0) (worker_w1 [NoMessage])))) = Some i \<and> 0 \<le> i) \<and>
   hooks_alike (\<lambda>a b. True) (counting_hooks 0) \<and>
   alike (\<lambda>a b. True) (worker_w1 [Message ''DO_X'' (Some 42), Message ''STOP PROCESS'' None])
      (set_shared_memory (Some 3)
         (worker_w1 [Message ''DO_X'' (Some 42), Message ''STOP PROCESS'' None])) \<and>
   fst (run 2 (script_env None) (counting_hooks 0)
      (set_shared_memory (Some 3)
         (worker_w1 [Message ''DO_X'' (Some 42), Message ''STOP PROCESS'' None]))) =
   fst (run 2 (script_env None) (counting_hooks 0)
      (worker_w1 [Message ''DO_X'' (Some 42), Message ''STOP PROCESS'' None])) \<and>
   alike (\<lambda>a b. True)
     (snd (run 2 (script_env None) (counting_hooks 0)
        (worker_w1 [Message ''DO_X'' (Some 42), Message ''STOP PROCESS'' None])))
     (snd (run 2 (script_env None) (counting_hooks 0)
        (set_shared_memory (Some 3)
           (worker_w1 [Message ''DO_X'' (Some 42), Message ''STOP PROCESS'' None]))))"
proof -
  let ?E = "script_env None"
  let ?h = "counting_hooks 0"
  let ?w = "worker_w1 [Message ''DO_X'' (Some 42), Message ''STOP PROCESS'' None]"
  let ?v = "set_shared_memory (Some 0) (worker_w1 [NoMessage])"
  let ?P = "\<lambda>m. \<exists>i. m = Some i \<and> (0::int) \<le> i"
  have tr: "trace (snd (run 2 ?E ?h ?w)) =
      [NewTaskChecker, NewResultPublisher, Log DEBUG ''MPFProcess initializing...'',
       CallInit, Log DEBUG ''MPFProcess w1 has successfully initialized'',
       Poll, CallUpdate ''DO_X'' (Some 42), CallStep, CallPublish,
       Poll, Log DEBUG ''PROCESS w1 RECEIVED STOP SIGNAL!'',
       Log DEBUG ''MPFProcess w1 Cleaning task checker...'', CheckerCleanup, DelChecker,
       Log DEBUG ''MPFProcess w1 has cleaned its task checker!'', DelPublisher,
       Log DEBUG ''MPFProcess w1 Cleaning up...'', CallCleanup,
       Log DEBUG ''MPFProcess w1 Exiting!'']"
    by (simp add: run_def try_block_def lift_def startup_def seq_alt import_modules_def
        new_task_checker_def new_results_publisher_def get_logger_def log_call_def call_hook_alt
        iteration_def step_publish_wait_def wait_def poll_script_def script_env_def
        counting_hooks_def worker_w1_def MPFProcess_new_def emit_def finally_block_def
        release_task_checker_def release_results_publisher_def except_block_def finish_def
        numeral_2_eq_2 msg_initializing_def msg_initialized_def msg_stop_def
        msg_cleaning_checker_def msg_cleaned_checker_def msg_cleaning_up_def msg_exiting_def)
  have w0: "trace ?w = []" "shared_memory ?w = None" "MPFProcess.more ?w = 0"
    by (simp_all add: worker_w1_def MPFProcess_new_def)
  from shared_memory_only_for_hooks[where s = ?w and n = 2 and E = ?E and h = ?h]
  obtain evs where e: "trace (snd (run 2 ?E ?h ?w)) = trace ?w @ evs"
    and m: "(shared_memory (snd (run 2 ?E ?h ?w)), MPFProcess.more (snd (run 2 ?E ?h ?w))) =
        replay ?h evs (shared_memory ?w, MPFProcess.more ?w)"
    by blast
  from e tr w0 have "evs =
      [NewTaskChecker, NewResultPublisher, Log DEBUG ''MPFProcess initializing...'',
       CallInit, Log DEBUG ''MPFProcess w1 has successfully initialized'',
       Poll, CallUpdate ''DO_X'' (Some 42), CallStep, CallPublish,
       Poll, Log DEBUG ''PROCESS w1 RECEIVED STOP SIGNAL!'',
       Log DEBUG ''MPFProcess w1 Cleaning task checker...'', CheckerCleanup, DelChecker,
       Log DEBUG ''MPFProcess w1 has cleaned its task checker!'', DelPublisher,
       Log DEBUG ''MPFProcess w1 Cleaning up...'', CallCleanup,
       Log DEBUG ''MPFProcess w1 Exiting!'']"
    by simp
  with m w0 have 1: "shared_memory (snd (run 2 ?E ?h ?w)) = Some 42"
    by (simp add: counting_hooks_def)
  have k: "hooks_keep ?P tally_hooks"
    by (simp add: hooks_keep_def tally_hooks_def)
  have p: "shared_memory ?v = Some 0"
    by (simp add: set_shared_memory_def)
  then have p': "?P (shared_memory ?v)" by simp
  have 2: "?P (shared_memory (snd (run 2 ?E tally_hooks ?v)))"
    using shared_memory_only_for_hooks[where P = ?P and h = tally_hooks and s = ?v
        and n = 2 and E = ?E] k p'
    by blast
  have a: "hooks_alike (\<lambda>a b. True) ?h"
    by (simp add: hooks_alike_def hook_alike_def counting_hooks_def)
  have b: "alike (\<lambda>a b. True) ?w (set_shared_memory (Some 3) ?w)"
    by (simp add: alike_def set_shared_memory_def)
  have 3: "fst (run 2 ?E ?h (set_shared_memory (Some 3) ?w)) = fst (run 2 ?E ?h ?w) \<and>
    alike (\<lambda>a b. True) (snd (run 2 ?E ?h ?w)) (snd (run 2 ?E ?h (set_shared_memory (Some 3) ?w)))"
    using shared_memory_only_for_hooks[where R = "\<lambda>a b. True" and h = ?h
        and s = ?w and t = "set_shared_memory (Some 3) ?w" and n = 2 and E = ?E]
      a b
    by blast
  from 1 k p 2 a b 3 show ?thesis by blast
qed

end
